theory Spec2Isabelle
  imports Main "HOL-Library.Stream"
begin

section \<open>The status-charting plugin of mast (docroot/plugin.js)\<close>

text \<open>
  The plugin is one callback of \<^verbatim>\<open>$.get("/config/status", ...)\<close>. It keeps its state in
  the page: the \<^verbatim>\<open>value\<close> attribute of the \<^verbatim>\<open>statusCharting\<close> button, the checked
  provider checkboxes, \<^verbatim>\<open>environment.appliances\<close>, \<^verbatim>\<open>config\<close>, \<^verbatim>\<open>window.charts\<close>,
  \<^verbatim>\<open>window.timeout\<close>, the chart containers below \<^verbatim>\<open>#status_main\<close>, the browser's
  pending timers and the requests in flight. The model passes this state explicitly; each
  source function becomes a function from state to state, and every browser event
  (click, checkbox change, appliance change, response, timer) a step.

  Conventions of the model:
  \<^item> \<^verbatim>\<open>$.publish\<close> calls the subscribers before it returns (jQuery's \<^verbatim>\<open>trigger\<close>), so a
    handler's statements after \<^verbatim>\<open>$.publish\<close> run after the subscriber has finished.
  \<^item> A chart container is identified by the provider it was made for; the selector
    \<^verbatim>\<open>"#status_" + sanitize_provider(p) + "_container"\<close> is taken to select exactly the
    containers of provider \<^verbatim>\<open>p\<close>.
  \<^item> Numbers of a response are opaque to the plugin (it never computes with them); they
    are integers here, and \<^verbatim>\<open>undefined\<close> is a value of its own.
  \<^item> A JavaScript \<^verbatim>\<open>TypeError\<close> leaves the mutations made before it in place; functions
    that can throw return the error beside the state reached.
  \<^item> \<^verbatim>\<open>console.log\<close> and \<^verbatim>\<open>chart.update()\<close> (redrawing) have no effect on this state.
\<close>

subsection \<open>Data\<close>

record appliance =
  hostname :: string
  credentials :: string

datatype jsnum = Num int | Undefined

record dataset =
  ds_label :: string
  ds_borderColor :: "string option"
  ds_data :: "jsnum list"

record chart =
  labels :: "jsnum list"
  datasets :: "dataset list"

text \<open>The body of a \<^verbatim>\<open>POST /status\<close> request, as \<^verbatim>\<open>get_data\<close> builds it.\<close>

record request =
  req_appliances :: "string list"
  req_credentials :: "string list"
  req_providers :: "string list"
  req_check_hostname :: bool

text \<open>
  A response of \<^verbatim>\<open>/status\<close>: \<^verbatim>\<open>data.time\<close>, \<^verbatim>\<open>data.appliances\<close> and, per provider id,
  \<^verbatim>\<open>data[provider]\<close> (\<open>None\<close> when the key is missing).
\<close>

record response =
  resp_time :: jsnum
  resp_appliances :: "string list"
  resp_values :: "string \<Rightarrow> jsnum list option"

text \<open>The \<^verbatim>\<open>value\<close> attribute of the \<^verbatim>\<open>statusCharting\<close> button: the text it displays.\<close>

datatype toggle = Start | Stop

datatype js_error = TypeError

text \<open>Calls on widgets: a container removed from the page, a container and chart created.\<close>

datatype widget_op = Destroyed string | Created string

text \<open>
  Collaborators that are not part of the plugin: \<^verbatim>\<open>xor.encode\<close> and \<^verbatim>\<open>getCookie\<close>.
\<close>

record external =
  xor_encode :: "string \<Rightarrow> string \<Rightarrow> string"
  getCookie :: "string \<Rightarrow> string"

text \<open>
  \<open>datapoints\<close> and \<open>interval\<close> hold \<^verbatim>\<open>parseInt(config.charts.datapoints)\<close> and
  \<^verbatim>\<open>parseInt(config.charts.interval)\<close>, \<open>None\<close> for \<^verbatim>\<open>NaN\<close>. \<open>random\<close> is the
  sequence of values that \<^verbatim>\<open>Math.floor(Math.random()*16777215)\<close> is going to take.
  \<open>timers\<close> are the timers set and neither fired nor cleared; \<open>timeout\<close> is
  \<^verbatim>\<open>window.timeout\<close> (\<open>None\<close> for \<^verbatim>\<open>undefined\<close>). \<open>charts\<close> is \<^verbatim>\<open>window.charts\<close>, an
  object whose keys keep their insertion order; a key can hold \<^verbatim>\<open>undefined\<close>.
\<close>

record state =
  statusCharting :: toggle
  appliances :: "appliance list"
  checked :: "string list"
  no_check_hostname :: bool
  colors :: "string \<Rightarrow> string option"
  datapoints :: "int option"
  interval :: "int option"
  random :: "nat stream"
  charts :: "(string \<times> chart option) list"
  containers :: "string list"
  timeout :: "nat option"
  timers :: "nat list"
  next_timer :: nat
  requests :: "request list"
  dom_log :: "widget_op list"

subsection \<open>Helpers of the JavaScript runtime\<close>

definition hex_digit :: "nat \<Rightarrow> char" where
  "hex_digit d = ''0123456789abcdef'' ! (d mod 16)"

fun toString16 :: "nat \<Rightarrow> string" where
  "toString16 n = (if n < 16 then [hex_digit n] else toString16 (n div 16) @ [hex_digit (n mod 16)])"

declare toString16.simps [simp del]

definition toLowerCase :: "string \<Rightarrow> string" where
  "toLowerCase str =
     map (\<lambda>c. case map_of (zip ''ABCDEFGHIJKLMNOPQRSTUVWXYZ'' ''abcdefghijklmnopqrstuvwxyz'') c of
                 Some l \<Rightarrow> l
               | None \<Rightarrow> c) str"

text \<open>\<^verbatim>\<open>obj[key] = v\<close>: an existing key keeps its place, a new key goes last.\<close>

fun assign :: "'k \<Rightarrow> 'v \<Rightarrow> ('k \<times> 'v) list \<Rightarrow> ('k \<times> 'v) list" where
  "assign k v [] = [(k, v)]"
| "assign k v ((k', v') # kvs) = (if k' = k then (k, v) # kvs else (k', v') # assign k v kvs)"

text \<open>\<^verbatim>\<open>window.charts[provider]\<close>: \<open>None\<close> when the key is absent or holds \<^verbatim>\<open>undefined\<close>.\<close>

definition chart_of :: "state \<Rightarrow> string \<Rightarrow> chart option" where
  "chart_of s provider = (case map_of (charts s) provider of Some (Some c) \<Rightarrow> Some c | _ \<Rightarrow> None)"

text \<open>\<^verbatim>\<open>arr[i]\<close> on an array of numbers: \<^verbatim>\<open>undefined\<close> beyond its end.\<close>

definition at_index :: "jsnum list \<Rightarrow> nat \<Rightarrow> jsnum" where
  "at_index xs i = (if i < length xs then xs ! i else Undefined)"

text \<open>\<^verbatim>\<open>arr.shift()\<close>: drops the first element; nothing happens on an empty array.\<close>

definition array_shift :: "'a list \<Rightarrow> 'a list" where
  "array_shift xs = (case xs of [] \<Rightarrow> [] | _ # ys \<Rightarrow> ys)"

definition setTimeout :: "state \<Rightarrow> nat \<times> state" where
  "setTimeout s =
     (next_timer s, s\<lparr>timers := timers s @ [next_timer s], next_timer := Suc (next_timer s)\<rparr>)"

definition clearTimeout :: "nat \<Rightarrow> state \<Rightarrow> state" where
  "clearTimeout t s = s\<lparr>timers := removeAll t (timers s)\<rparr>"

subsection \<open>The functions of the plugin\<close>

definition randomColor :: "state \<Rightarrow> string \<times> state" where
  "randomColor s =
     (''#'' @ toString16 (shd (random s) mod 16777215), s\<lparr>random := stl (random s)\<rparr>)"

definition get_selected_providers :: "state \<Rightarrow> string list" where
  "get_selected_providers s = checked s"

definition initialize_chart :: "string \<Rightarrow> state \<Rightarrow> chart option \<times> state" where
  "initialize_chart provider s =
     (if length (appliances s) = 0 then (None, s)
      else
        let old = filter (\<lambda>p. p = provider) (containers s);
            s1 = s\<lparr>containers := filter (\<lambda>p. p \<noteq> provider) (containers s),
                   dom_log := dom_log s @ map Destroyed old\<rparr>;
            s2 = s1\<lparr>containers := containers s1 @ [provider]\<rparr>;
            dss = map (\<lambda>a. \<lparr>ds_label = hostname a,
                              ds_borderColor = colors s2 (hostname a),
                              ds_data = []\<rparr>) (appliances s2);
            s3 = s2\<lparr>dom_log := dom_log s2 @ [Created provider]\<rparr>
        in (Some \<lparr>labels = [], datasets = dss\<rparr>, s3))"

text \<open>Lines 133-138: an appliance without a colour gets a random one.\<close>

definition assign_color :: "appliance \<Rightarrow> state \<Rightarrow> state" where
  "assign_color a s =
     (case colors s (hostname a) of
        Some _ \<Rightarrow> s
      | None \<Rightarrow> (case randomColor s of (c, s') \<Rightarrow> s'\<lparr>colors := (colors s')(hostname a \<mapsto> c)\<rparr>))"

text \<open>Lines 142-147: the container of a registered provider that is no longer selected goes.\<close>

definition remove_unselected :: "string list \<Rightarrow> string \<Rightarrow> state \<Rightarrow> state" where
  "remove_unselected providers provider s =
     (if provider \<notin> set providers
      then s\<lparr>containers := filter (\<lambda>p. p \<noteq> provider) (containers s),
              dom_log := dom_log s @ map Destroyed (filter (\<lambda>p. p = provider) (containers s))\<rparr>
      else s)"

text \<open>Lines 150-152: \<^verbatim>\<open>window.charts[provider] = initialize_chart( provider )\<close>.\<close>

definition register_chart :: "string \<Rightarrow> state \<Rightarrow> state" where
  "register_chart provider s =
     (case initialize_chart provider s of (c, s') \<Rightarrow> s'\<lparr>charts := assign provider c (charts s')\<rparr>)"

definition get_data :: "external \<Rightarrow> state \<Rightarrow> state" where
  "get_data ext s =
     (let key = xor_encode ext (getCookie ext ''9x4h/mmek/j.ahba.ckhafn'') ''_'';
          data = \<lparr>req_appliances = map hostname (appliances s),
                  req_credentials = map (\<lambda>a. xor_encode ext (credentials a) key) (appliances s),
                  req_providers = get_selected_providers s,
                  req_check_hostname = (\<not> no_check_hostname s)\<rparr>
      in s\<lparr>requests := requests s @ [data]\<rparr>)"

definition initialize_all :: "external \<Rightarrow> state \<Rightarrow> state" where
  "initialize_all ext s =
     (if statusCharting s = Start then s
      else if length (appliances s) = 0 then s
      else
        let s1 = fold assign_color (appliances s) s;
            providers = get_selected_providers s1;
            s2 = fold (remove_unselected providers) (map fst (charts s1)) s1;
            s3 = s2\<lparr>charts := []\<rparr>;
            s4 = fold register_chart providers s3
        in get_data ext s4)"

text \<open>
  Lines 164-171, the loop over \<^verbatim>\<open>data.appliances\<close> for one provider: dataset
  \<open>appliance_index\<close> gets \<^verbatim>\<open>data[provider][appliance_index]\<close>. Reading \<^verbatim>\<open>.data\<close> of a
  dataset that does not exist, or indexing a \<^verbatim>\<open>data[provider]\<close> that is
  \<^verbatim>\<open>undefined\<close>, throws.
\<close>

fun push_values :: "jsnum list option \<Rightarrow> nat \<Rightarrow> string list \<Rightarrow> dataset list
    \<Rightarrow> js_error option \<times> dataset list" where
  "push_values vals appliance_index [] dss = (None, dss)"
| "push_values vals appliance_index (appliance # rest) dss =
     (if appliance_index < length dss then
        (case vals of
           None \<Rightarrow> (Some TypeError, dss)
         | Some vs \<Rightarrow>
             push_values vals (Suc appliance_index) rest
               (dss[appliance_index :=
                  (dss ! appliance_index)\<lparr>ds_data :=
                     ds_data (dss ! appliance_index) @ [at_index vs appliance_index]\<rparr>]))
      else (Some TypeError, dss))"

text \<open>Lines 163-186 on the chart of one provider: push, then evict once past the cap.\<close>

definition add_data_chart :: "int option \<Rightarrow> string \<Rightarrow> response \<Rightarrow> chart
    \<Rightarrow> js_error option \<times> chart" where
  "add_data_chart cap provider data c =
     (let c1 = c\<lparr>labels := labels c @ [resp_time data]\<rparr> in
      case push_values (resp_values data provider) 0 (resp_appliances data) (datasets c1) of
        (Some e, dss) \<Rightarrow> (Some e, c1\<lparr>datasets := dss\<rparr>)
      | (None, dss) \<Rightarrow>
          (let c2 = c1\<lparr>datasets := dss\<rparr> in
           case datasets c2 of
             [] \<Rightarrow> (Some TypeError, c2)
           | d0 # _ \<Rightarrow>
               (if (case cap of None \<Rightarrow> False | Some n \<Rightarrow> int (length (ds_data d0)) > n)
                then (None, c2\<lparr>labels := array_shift (labels c2),
                               datasets := map (\<lambda>d. d\<lparr>ds_data := array_shift (ds_data d)\<rparr>) (datasets c2)\<rparr>)
                else (None, c2))))"

text \<open>The callback of \<^verbatim>\<open>$.each( providers, ... )\<close> in \<^verbatim>\<open>add_data\<close>, on the state.\<close>

definition add_data_provider :: "response \<Rightarrow> string \<Rightarrow> state \<Rightarrow> js_error option \<times> state" where
  "add_data_provider data provider s =
     (case chart_of s provider of
        None \<Rightarrow> (Some TypeError, s)
      | Some c \<Rightarrow>
          (case add_data_chart (datapoints s) provider data c of
             (e, c') \<Rightarrow> (e, s\<lparr>charts := assign provider (Some c') (charts s)\<rparr>)))"

fun add_data_each :: "response \<Rightarrow> string list \<Rightarrow> state \<Rightarrow> js_error option \<times> state" where
  "add_data_each data [] s = (None, s)"
| "add_data_each data (provider # rest) s =
     (case add_data_provider data provider s of
        (Some e, s') \<Rightarrow> (Some e, s')
      | (None, s') \<Rightarrow> add_data_each data rest s')"

definition add_data :: "response \<Rightarrow> state \<Rightarrow> js_error option \<times> state" where
  "add_data data s = add_data_each data (get_selected_providers s) s"

text \<open>
  The \<^verbatim>\<open>success\<close> callback of the request (lines 209-220). An error thrown by
  \<^verbatim>\<open>add_data\<close> ends the callback: the lines that set the timer are not reached.
\<close>

definition success :: "external \<Rightarrow> response \<Rightarrow> state \<Rightarrow> state" where
  "success ext data s =
     (if statusCharting s = Stop then
        (case add_data data s of
           (Some e, s1) \<Rightarrow> s1
         | (None, s1) \<Rightarrow>
             (case timeout s1 of
                Some t \<Rightarrow>
                  (case setTimeout (clearTimeout t s1) of (h, s2) \<Rightarrow> s2\<lparr>timeout := Some h\<rparr>)
              | None \<Rightarrow>
                  (case setTimeout s1 of (h, s2) \<Rightarrow> s2\<lparr>timeout := Some h\<rparr>)))
      else s)"

text \<open>The click handler of the \<^verbatim>\<open>statusCharting\<close> button (lines 231-239).\<close>

definition click :: "external \<Rightarrow> state \<Rightarrow> state" where
  "click ext s =
     (if statusCharting s = Start
      then (initialize_all ext s)\<lparr>statusCharting := Stop\<rparr>
      else s\<lparr>statusCharting := Start\<rparr>)"

text \<open>
  The change handler of the checkboxes (lines 241-243). The browser has changed the
  checked boxes to \<open>sel\<close> before the handler runs.
\<close>

definition checkbox_change :: "external \<Rightarrow> string list \<Rightarrow> state \<Rightarrow> state" where
  "checkbox_change ext sel s = initialize_all ext (s\<lparr>checked := sel\<rparr>)"

text \<open>
  \<^verbatim>\<open>modifyAppliances\<close> is published by the appliance form after it has changed
  \<^verbatim>\<open>environment.appliances\<close>; the plugin subscribes \<^verbatim>\<open>initialize_all\<close> to it (line 229).
\<close>

definition modifyAppliances :: "external \<Rightarrow> appliance list \<Rightarrow> state \<Rightarrow> state" where
  "modifyAppliances ext apps s = initialize_all ext (s\<lparr>appliances := apps\<rparr>)"

text \<open>
  The state right after the plugin has loaded (lines 2 and 245-254): no chart, no timer,
  the button set from \<^verbatim>\<open>config.charts.startonload\<close>.
\<close>

definition init :: "string \<Rightarrow> int option \<Rightarrow> int option \<Rightarrow> (string \<Rightarrow> string option)
    \<Rightarrow> nat stream \<Rightarrow> appliance list \<Rightarrow> string list \<Rightarrow> state" where
  "init startonload points delay cols rnd apps sel =
     \<lparr>statusCharting = (if toLowerCase startonload = ''true'' then Stop else Start),
      appliances = apps, checked = sel, no_check_hostname = False,
      colors = cols, datapoints = points, interval = delay, random = rnd,
      charts = [], containers = [], timeout = None, timers = [], next_timer = 0,
      requests = [], dom_log = []\<rparr>"

subsection \<open>Events\<close>

text \<open>
  What the browser can deliver: a click on the button, a change of the checkboxes, a change
  of the appliances, the answer to the request at position \<open>i\<close> of those in flight (with a
  body, or a failure, for which the plugin has no callback), and the firing of a pending
  timer, which calls \<^verbatim>\<open>get_data\<close>. An answer to a request that is not in flight and the
  firing of a timer that is not pending cannot happen; the step leaves the state alone.
  Time is not part of the model: a pending timer can fire at any moment and a response can
  arrive at any moment, which covers every value of the interval and every latency.
\<close>

datatype event =
  Click
| Change "string list"
| ModifyAppliances "appliance list"
| Success nat response
| Failure nat
| Fire nat

definition drop_request :: "nat \<Rightarrow> state \<Rightarrow> state" where
  "drop_request i s = s\<lparr>requests := take i (requests s) @ drop (Suc i) (requests s)\<rparr>"

fun step :: "external \<Rightarrow> event \<Rightarrow> state \<Rightarrow> state" where
  "step ext Click s = click ext s"
| "step ext (Change sel) s = checkbox_change ext sel s"
| "step ext (ModifyAppliances apps) s = modifyAppliances ext apps s"
| "step ext (Success i data) s =
     (if i < length (requests s) then success ext data (drop_request i s) else s)"
| "step ext (Failure i) s = (if i < length (requests s) then drop_request i s else s)"
| "step ext (Fire t) s =
     (if t \<in> set (timers s) then get_data ext (s\<lparr>timers := removeAll t (timers s)\<rparr>) else s)"

definition run :: "external \<Rightarrow> event list \<Rightarrow> state \<Rightarrow> state" where
  "run ext evs s = fold (step ext) evs s"

subsection \<open>Notions used to state the properties\<close>

text \<open>
  The series of a provider: the labels of its chart and, per dataset, the values. This is
  what the specification calls the Series; a Sample is one label and the value of each
  dataset at the same position.
\<close>

definition series_of :: "state \<Rightarrow> string \<Rightarrow> (jsnum list \<times> jsnum list list) option" where
  "series_of s provider =
     (case chart_of s provider of None \<Rightarrow> None | Some c \<Rightarrow> Some (labels c, map ds_data (datasets c)))"

text \<open>Every pending timer is the one that \<^verbatim>\<open>window.timeout\<close> holds.\<close>

definition timers_inv :: "state \<Rightarrow> bool" where
  "timers_inv s = (case timers s of [] \<Rightarrow> True | [t] \<Rightarrow> timeout s = Some t | _ \<Rightarrow> False)"

text \<open>A chart is aligned when every dataset holds as many values as there are labels.\<close>

definition aligned :: "chart \<Rightarrow> bool" where
  "aligned c = list_all (\<lambda>d. length (ds_data d) = length (labels c)) (datasets c)"

text \<open>
  What \<^verbatim>\<open>add_data\<close> leaves of an array after a push: the first element goes when the array
  is longer than the cap (never, when the cap is \<^verbatim>\<open>NaN\<close>).
\<close>

definition capped :: "int option \<Rightarrow> 'a list \<Rightarrow> 'a list" where
  "capped cap xs = (if (case cap of None \<Rightarrow> False | Some n \<Rightarrow> int (length xs) > n) then array_shift xs else xs)"


text \<open>
  A chart with one more sample of a response: the timestamp pushed onto the labels, value
  \<open>j\<close> of \<^verbatim>\<open>data[provider]\<close> pushed onto dataset \<open>j\<close>, each array then cut to the cap.
  A chart with one more label only. The providers of a selection before the first one
  whose key is missing in the response, and that first one.
\<close>

definition with_sample :: "int option \<Rightarrow> response \<Rightarrow> string \<Rightarrow> chart \<Rightarrow> chart" where
  "with_sample cap data provider c =
     c\<lparr>labels := capped cap (labels c @ [resp_time data]),
       datasets :=
         map (\<lambda>j. (datasets c ! j)\<lparr>ds_data :=
                  capped cap (ds_data (datasets c ! j) @ [at_index (the (resp_values data provider)) j])\<rparr>)
             [0..<length (datasets c)]\<rparr>"

definition with_label :: "response \<Rightarrow> chart \<Rightarrow> chart" where
  "with_label data c = c\<lparr>labels := labels c @ [resp_time data]\<rparr>"

definition before_missing :: "response \<Rightarrow> string list \<Rightarrow> string list" where
  "before_missing data providers = takeWhile (\<lambda>p. resp_values data p \<noteq> None) providers"

definition first_missing :: "response \<Rightarrow> string list \<Rightarrow> string" where
  "first_missing data providers = hd (dropWhile (\<lambda>p. resp_values data p \<noteq> None) providers)"

text \<open>
  The providers that the loop of \<^verbatim>\<open>add_data\<close> gets to when a key is missing: those before
  the first provider without a key in the response, and that provider.
\<close>

definition reached :: "response \<Rightarrow> string list \<Rightarrow> string list" where
  "reached data providers =
     takeWhile (\<lambda>p. resp_values data p \<noteq> None) providers @
     take 1 (dropWhile (\<lambda>p. resp_values data p \<noteq> None) providers)"

text \<open>
  A response fits the chart of a provider when the chart is there, aligned, and has one
  dataset for each entry of \<^verbatim>\<open>data.appliances\<close> (and at least one).
\<close>

definition fits :: "response \<Rightarrow> state \<Rightarrow> string \<Rightarrow> bool" where
  "fits data s provider =
     (case chart_of s provider of
        None \<Rightarrow> False
      | Some c \<Rightarrow> aligned c \<and> datasets c \<noteq> [] \<and> length (datasets c) = length (resp_appliances data))"

text \<open>The chart that \<^verbatim>\<open>initialize_chart\<close> builds: no label, one empty dataset per appliance.\<close>

definition fresh_chart :: "appliance list \<Rightarrow> (string \<Rightarrow> string option) \<Rightarrow> chart" where
  "fresh_chart apps cols =
     \<lparr>labels = [],
      datasets = map (\<lambda>a. \<lparr>ds_label = hostname a, ds_borderColor = cols (hostname a), ds_data = []\<rparr>) apps\<rparr>"

text \<open>
  What \<^verbatim>\<open>initialize_chart\<close> does to the containers and to the log of widget calls, for
  a list of providers in turn.
\<close>

definition reappend :: "string \<Rightarrow> string list \<Rightarrow> string list" where
  "reappend p cs = filter (\<lambda>q. q \<noteq> p) cs @ [p]"

fun rebuild_log :: "string list \<Rightarrow> string list \<Rightarrow> widget_op list" where
  "rebuild_log [] cs = []"
| "rebuild_log (p # ps) cs =
     map Destroyed (filter (\<lambda>q. q = p) cs) @ [Created p] @ rebuild_log ps (reappend p cs)"

subsection \<open>Concrete pages and responses\<close>

definition ext0 :: external where
  "ext0 = \<lparr>xor_encode = (\<lambda>a b. a @ b), getCookie = (\<lambda>n. ''k'')\<rparr>"

definition dp1 :: appliance where
  "dp1 = \<lparr>hostname = ''dp1'', credentials = ''admin:pw''\<rparr>"

text \<open>One appliance, \<^verbatim>\<open>startonload\<close> off, the provider \<^verbatim>\<open>cpu\<close> checked.\<close>

definition page_idle :: state where
  "page_idle = init ''false'' (Some 3) (Some 1000) Map.empty (sconst 0) [dp1] [''cpu'']"

text \<open>One appliance, \<^verbatim>\<open>startonload\<close> on, the providers \<^verbatim>\<open>cpu\<close> and \<^verbatim>\<open>memory\<close> checked.\<close>

definition page_monitoring :: state where
  "page_monitoring =
     init ''True'' (Some 3) (Some 1000) Map.empty (sconst 0) [dp1] [''cpu'', ''memory'']"

definition tick_full :: response where
  "tick_full = \<lparr>resp_time = Num 1, resp_appliances = [''dp1''],
                 resp_values = [''cpu'' \<mapsto> [Num 10], ''memory'' \<mapsto> [Num 20]]\<rparr>"

definition tick_no_memory :: response where
  "tick_no_memory = \<lparr>resp_time = Num 1, resp_appliances = [''dp1''],
                      resp_values = [''cpu'' \<mapsto> [Num 10]]\<rparr>"


lemmas plugin_defs =
  run_def click_def checkbox_change_def modifyAppliances_def initialize_all_def init_def
  toLowerCase_def assign_color_def randomColor_def get_selected_providers_def
  remove_unselected_def register_chart_def initialize_chart_def get_data_def toString16.simps
  hex_digit_def success_def drop_request_def add_data_def add_data_provider_def chart_of_def
  add_data_chart_def setTimeout_def clearTimeout_def array_shift_def at_index_def series_of_def Let_def

lemmas scenario_defs =
  ext0_def dp1_def page_idle_def page_monitoring_def tick_full_def tick_no_memory_def

section \<open>Timers\<close>

subsection \<open>What leaves the timers alone\<close>

lemma tm_assign_color:
  "timers (assign_color a s) = timers s" "timeout (assign_color a s) = timeout s"
  "next_timer (assign_color a s) = next_timer s"
  by (simp_all add: assign_color_def randomColor_def split: option.splits)

lemma tm_fold_assign_color:
  "timers (fold assign_color as s) = timers s" "timeout (fold assign_color as s) = timeout s"
  "next_timer (fold assign_color as s) = next_timer s"
  by (induction as arbitrary: s) (simp_all add: tm_assign_color)

lemma tm_remove_unselected:
  "timers (remove_unselected ps p s) = timers s" "timeout (remove_unselected ps p s) = timeout s"
  "next_timer (remove_unselected ps p s) = next_timer s"
  by (simp_all add: remove_unselected_def)

lemma tm_fold_remove_unselected:
  "timers (fold (remove_unselected ps) qs s) = timers s"
  "timeout (fold (remove_unselected ps) qs s) = timeout s"
  "next_timer (fold (remove_unselected ps) qs s) = next_timer s"
  by (induction qs arbitrary: s) (simp_all add: tm_remove_unselected)

lemma tm_register_chart:
  "timers (register_chart p s) = timers s" "timeout (register_chart p s) = timeout s"
  "next_timer (register_chart p s) = next_timer s"
  by (simp_all add: register_chart_def initialize_chart_def Let_def)

lemma tm_fold_register_chart:
  "timers (fold register_chart ps s) = timers s" "timeout (fold register_chart ps s) = timeout s"
  "next_timer (fold register_chart ps s) = next_timer s"
  by (induction ps arbitrary: s) (simp_all add: tm_register_chart)

lemma tm_get_data:
  "timers (get_data ext s) = timers s" "timeout (get_data ext s) = timeout s"
  "next_timer (get_data ext s) = next_timer s"
  by (simp_all add: get_data_def Let_def)

lemma tm_initialize_all:
  "timers (initialize_all ext s) = timers s" "timeout (initialize_all ext s) = timeout s"
  "next_timer (initialize_all ext s) = next_timer s"
  by (simp_all add: initialize_all_def Let_def tm_get_data tm_fold_register_chart
      tm_fold_remove_unselected tm_fold_assign_color)

lemma tm_click:
  "timers (click ext s) = timers s" "timeout (click ext s) = timeout s"
  "next_timer (click ext s) = next_timer s"
  by (simp_all add: click_def tm_initialize_all)


lemma tm_add_data_provider:
  "timers (snd (add_data_provider d p s)) = timers s"
  "timeout (snd (add_data_provider d p s)) = timeout s"
  "next_timer (snd (add_data_provider d p s)) = next_timer s"
  by (simp_all add: add_data_provider_def split: option.splits prod.splits)

lemma tm_add_data_each_all:
  "timers (snd (add_data_each d ps s)) = timers s \<and>
   timeout (snd (add_data_each d ps s)) = timeout s \<and>
   next_timer (snd (add_data_each d ps s)) = next_timer s"
proof (induction ps arbitrary: s)
  case Nil
  show ?case by simp
next
  case (Cons p ps)
  obtain e s' where st: "add_data_provider d p s = (e, s')"
    by (cases "add_data_provider d p s")
  have fr: "timers s' = timers s" "timeout s' = timeout s" "next_timer s' = next_timer s"
    using tm_add_data_provider [of d p s] st by simp_all
  show ?case
  proof (cases e)
    case None
    then show ?thesis using st fr Cons.IH [of s'] by simp
  next
    case (Some err)
    then show ?thesis using st fr by simp
  qed
qed

lemmas tm_add_data_each =
  tm_add_data_each_all [THEN conjunct1]
  tm_add_data_each_all [THEN conjunct2, THEN conjunct1]
  tm_add_data_each_all [THEN conjunct2, THEN conjunct2]

lemma tm_add_data:
  "timers (snd (add_data d s)) = timers s" "timeout (snd (add_data d s)) = timeout s"
  "next_timer (snd (add_data d s)) = next_timer s"
  by (simp_all add: add_data_def tm_add_data_each)

subsection \<open>At most one pending timer\<close>

lemma timers_inv_frame:
  "timers s' = timers s \<Longrightarrow> timeout s' = timeout s \<Longrightarrow> timers_inv s' = timers_inv s"
  unfolding timers_inv_def by (simp split: list.splits)

lemma success_timers:
  assumes "statusCharting s = Stop" and "fst (add_data d s) = None"
  shows "timers (success ext d s) =
           (case timeout s of None \<Rightarrow> timers s | Some t \<Rightarrow> removeAll t (timers s)) @ [next_timer s]"
    and "timeout (success ext d s) = Some (next_timer s)"
    and "next_timer (success ext d s) = Suc (next_timer s)"
proof -
  obtain s1 where ad: "add_data d s = (None, s1)"
    using assms(2) by (cases "add_data d s") simp
  have fr: "timers s1 = timers s" "timeout s1 = timeout s" "next_timer s1 = next_timer s"
    using tm_add_data [of d s] ad by simp_all
  show "timers (success ext d s) =
           (case timeout s of None \<Rightarrow> timers s | Some t \<Rightarrow> removeAll t (timers s)) @ [next_timer s]"
    using assms(1) ad fr
    by (simp add: success_def setTimeout_def clearTimeout_def split: option.splits)
  show "timeout (success ext d s) = Some (next_timer s)"
    using assms(1) ad fr
    by (simp add: success_def setTimeout_def clearTimeout_def split: option.splits)
  show "next_timer (success ext d s) = Suc (next_timer s)"
    using assms(1) ad fr
    by (simp add: success_def setTimeout_def clearTimeout_def split: option.splits)
qed

lemma success_no_timer:
  assumes "statusCharting s = Start \<or> fst (add_data d s) \<noteq> None"
  shows "timers (success ext d s) = timers s" and "timeout (success ext d s) = timeout s"
    and "next_timer (success ext d s) = next_timer s"
proof -
  obtain e s1 where ad: "add_data d s = (e, s1)"
    by (cases "add_data d s")
  have fr: "timers s1 = timers s" "timeout s1 = timeout s" "next_timer s1 = next_timer s"
    using tm_add_data [of d s] ad by simp_all
  have c: "statusCharting s = Start \<or> e \<noteq> None"
    using assms ad by simp
  show "timers (success ext d s) = timers s"
    using c ad fr by (auto simp: success_def)
  show "timeout (success ext d s) = timeout s"
    using c ad fr by (auto simp: success_def)
  show "next_timer (success ext d s) = next_timer s"
    using c ad fr by (auto simp: success_def)
qed

lemma timers_inv_success: 
  assumes "timers_inv s" shows "timers_inv (success ext d s)"
proof (cases "statusCharting s = Stop \<and> fst (add_data d s) = None")
  case True
  then have "timers (success ext d s) =
           (case timeout s of None \<Rightarrow> timers s | Some t \<Rightarrow> removeAll t (timers s)) @ [next_timer s]"
    and "timeout (success ext d s) = Some (next_timer s)"
    using success_timers [of s d ext] by simp_all
  moreover have "(case timeout s of None \<Rightarrow> timers s | Some t \<Rightarrow> removeAll t (timers s)) = []"
    using assms unfolding timers_inv_def by (auto split: list.splits option.splits)
  ultimately show ?thesis
    unfolding timers_inv_def by simp
next
  case False
  then have "statusCharting s = Start \<or> fst (add_data d s) \<noteq> None"
    by (cases "statusCharting s") simp_all
  then have "timers (success ext d s) = timers s" "timeout (success ext d s) = timeout s"
    using success_no_timer [of s d ext] by simp_all
  then show ?thesis
    using assms timers_inv_frame by blast
qed

lemma timers_inv_step:
  assumes "timers_inv s" shows "timers_inv (step ext ev s)"
proof (cases ev)
  case Click
  then show ?thesis
    using assms timers_inv_frame [of "click ext s" s] by (simp add: tm_click)
next
  case (Change sel)
  then show ?thesis
    using assms timers_inv_frame [of "checkbox_change ext sel s" s]
    by (simp add: checkbox_change_def tm_initialize_all)
next
  case (ModifyAppliances apps)
  then show ?thesis
    using assms timers_inv_frame [of "modifyAppliances ext apps s" s]
    by (simp add: modifyAppliances_def tm_initialize_all)
next
  case (Success i d)
  have "timers_inv (drop_request i s)"
    using assms timers_inv_frame [of "drop_request i s" s] by (simp add: drop_request_def)
  then show ?thesis
    using Success assms timers_inv_success by simp
next
  case (Failure i)
  then show ?thesis
    using assms timers_inv_frame [of "drop_request i s" s] by (simp add: drop_request_def)
next
  case (Fire t)
  have "timers_inv (s\<lparr>timers := removeAll t (timers s)\<rparr>)"
    using assms unfolding timers_inv_def by (auto split: list.splits)
  then have "timers_inv (get_data ext (s\<lparr>timers := removeAll t (timers s)\<rparr>))"
    using timers_inv_frame [of "get_data ext (s\<lparr>timers := removeAll t (timers s)\<rparr>)"
        "s\<lparr>timers := removeAll t (timers s)\<rparr>"]
    by (simp add: tm_get_data)
  then show ?thesis using Fire assms by simp
qed

lemma timers_inv_run: "timers_inv s \<Longrightarrow> timers_inv (run ext evs s)"
  unfolding run_def by (induction evs arbitrary: s) (simp_all add: timers_inv_step)

lemma timers_inv_init: "timers_inv (init so p d c r apps sel)"
  by (simp add: timers_inv_def init_def)

lemma timers_inv_length: "timers_inv s \<Longrightarrow> length (timers s) \<le> 1"
  unfolding timers_inv_def by (simp split: list.splits)

lemma monitoring_charted:
  "run ext0 [Change [''cpu'', ''memory'']] page_monitoring =
     \<lparr>statusCharting = Stop, appliances = [dp1], checked = [''cpu'', ''memory''],
      no_check_hostname = False, colors = [''dp1'' \<mapsto> ''#0''], datapoints = Some 3,
      interval = Some 1000, random = sconst 0,
      charts = [(''cpu'', Some \<lparr>labels = [], datasets = [\<lparr>ds_label = ''dp1'', ds_borderColor = Some ''#0'', ds_data = []\<rparr>]\<rparr>),
                (''memory'', Some \<lparr>labels = [], datasets = [\<lparr>ds_label = ''dp1'', ds_borderColor = Some ''#0'', ds_data = []\<rparr>]\<rparr>)],
      containers = [''cpu'', ''memory''], timeout = None, timers = [], next_timer = 0,
      requests = [\<lparr>req_appliances = [''dp1''], req_credentials = [''admin:pwk_''],
                   req_providers = [''cpu'', ''memory''], req_check_hostname = True\<rparr>],
      dom_log = [Created ''cpu'', Created ''memory'']\<rparr>"
  by (simp add: plugin_defs scenario_defs)

text \<open>
  C6. From the loaded page, after every sequence of events at most one timer is pending.
  The reason is the success callback: when it sets a timer it first clears the one that
  \<^verbatim>\<open>window.timeout\<close> holds, and stores the new one there.
\<close>

theorem at_most_one_pending_timer:
  "length (timers (run ext evs (init startonload points delay cols rnd apps sel))) \<le> 1
   \<and> (statusCharting s = Stop \<and> fst (add_data data s) = None \<longrightarrow>
        timers (success ext data s) =
          (case timeout s of None \<Rightarrow> timers s | Some t \<Rightarrow> removeAll t (timers s)) @ [next_timer s]
        \<and> timeout (success ext data s) = Some (next_timer s))"
  using timers_inv_length [OF timers_inv_run [OF timers_inv_init]] success_timers(1,2) [of s data ext]
  by blast

theorem at_most_one_pending_timer_witness:
  "length (timers (run ext0 [Change [''cpu'', ''memory''], Success 0 tick_full, Fire 0, Success 0 tick_full]
       (init ''True'' (Some 3) (Some 1000) Map.empty (sconst 0) [dp1] [''cpu'', ''memory'']))) \<le> 1
   \<and> statusCharting (run ext0 [Change [''cpu'', ''memory'']] page_monitoring) = Stop
   \<and> fst (add_data tick_full (run ext0 [Change [''cpu'', ''memory'']] page_monitoring)) = None
   \<and> timers (success ext0 tick_full (run ext0 [Change [''cpu'', ''memory'']] page_monitoring)) = [0]
   \<and> timeout (success ext0 tick_full (run ext0 [Change [''cpu'', ''memory'']] page_monitoring)) = Some 0"
proof -
  have a: "statusCharting (run ext0 [Change [''cpu'', ''memory'']] page_monitoring) = Stop"
    by (simp add: monitoring_charted)
  have b: "fst (add_data tick_full (run ext0 [Change [''cpu'', ''memory'']] page_monitoring)) = None"
    unfolding monitoring_charted by (simp add: plugin_defs scenario_defs)
  show ?thesis
    using a b at_most_one_pending_timer [of ext0
        "[Change [''cpu'', ''memory''], Success 0 tick_full, Fire 0, Success 0 tick_full]"
        "''True''" "Some 3" "Some 1000" Map.empty "sconst 0" "[dp1]" "[''cpu'', ''memory'']"
        "run ext0 [Change [''cpu'', ''memory'']] page_monitoring" tick_full]
    by (simp add: monitoring_charted)
qed


section \<open>The button as a gate\<close>

lemma initialize_all_gated:
  "statusCharting s = Start \<or> appliances s = [] \<Longrightarrow> initialize_all ext s = s"
  by (auto simp: initialize_all_def)

lemma success_gated: "statusCharting s = Start \<Longrightarrow> success ext data s = s"
  by (simp add: success_def)

lemma step_while_idle:
  assumes "statusCharting s = Start" and "ev \<noteq> Click"
  shows "statusCharting (step ext ev s) = Start \<and> next_timer (step ext ev s) = next_timer s \<and>
         set (timers (step ext ev s)) \<subseteq> set (timers s) \<and> charts (step ext ev s) = charts s \<and>
         containers (step ext ev s) = containers s"
proof (cases ev)
  case Click
  with assms(2) show ?thesis by simp
next
  case (Change sel)
  then show ?thesis
    using assms(1) by (simp add: checkbox_change_def initialize_all_gated)
next
  case (ModifyAppliances apps)
  then show ?thesis
    using assms(1) by (simp add: modifyAppliances_def initialize_all_gated)
next
  case (Success i data)
  then show ?thesis
    using assms(1) by (simp add: success_gated drop_request_def)
next
  case (Failure i)
  then show ?thesis
    using assms(1) by (simp add: drop_request_def)
next
  case (Fire t)
  then show ?thesis
    using assms(1) by (auto simp: get_data_def Let_def)
qed

lemma run_while_idle:
  assumes "statusCharting s = Start" and "Click \<notin> set evs"
  shows "statusCharting (run ext evs s) = Start \<and> next_timer (run ext evs s) = next_timer s \<and>
         set (timers (run ext evs s)) \<subseteq> set (timers s) \<and> charts (run ext evs s) = charts s \<and>
         containers (run ext evs s) = containers s"
  using assms
proof (induction evs arbitrary: s)
  case Nil
  then show ?case by (simp add: run_def)
next
  case (Cons ev evs)
  have ne: "ev \<noteq> Click" and rest: "Click \<notin> set evs"
    using Cons.prems(2) by auto
  have one: "statusCharting (step ext ev s) = Start \<and> next_timer (step ext ev s) = next_timer s \<and>
         set (timers (step ext ev s)) \<subseteq> set (timers s) \<and> charts (step ext ev s) = charts s \<and>
         containers (step ext ev s) = containers s"
    using step_while_idle [OF Cons.prems(1) ne] .
  have "run ext (ev # evs) s = run ext evs (step ext ev s)"
    by (simp add: run_def)
  then show ?case
    using Cons.IH [of "step ext ev s"] one rest by auto
qed

lemma monitoring_ticked:
  "run ext0 [Change [''cpu'', ''memory''], Success 0 tick_full] page_monitoring =
     \<lparr>statusCharting = Stop, appliances = [dp1], checked = [''cpu'', ''memory''],
      no_check_hostname = False, colors = [''dp1'' \<mapsto> ''#0''], datapoints = Some 3,
      interval = Some 1000, random = sconst 0,
      charts = [(''cpu'', Some \<lparr>labels = [Num 1], datasets = [\<lparr>ds_label = ''dp1'', ds_borderColor = Some ''#0'', ds_data = [Num 10]\<rparr>]\<rparr>),
                (''memory'', Some \<lparr>labels = [Num 1], datasets = [\<lparr>ds_label = ''dp1'', ds_borderColor = Some ''#0'', ds_data = [Num 20]\<rparr>]\<rparr>)],
      containers = [''cpu'', ''memory''], timeout = Some 0, timers = [0], next_timer = 1,
      requests = [],
      dom_log = [Created ''cpu'', Created ''memory'']\<rparr>"
proof -
  have "run ext0 [Change [''cpu'', ''memory''], Success 0 tick_full] page_monitoring =
        step ext0 (Success 0 tick_full) (run ext0 [Change [''cpu'', ''memory'']] page_monitoring)"
    by (simp add: run_def)
  then show ?thesis
    unfolding monitoring_charted by (simp add: plugin_defs scenario_defs)
qed

lemma monitoring_stopped:
  "run ext0 [Change [''cpu'', ''memory''], Success 0 tick_full, Click, Fire 0] page_monitoring =
     \<lparr>statusCharting = Start, appliances = [dp1], checked = [''cpu'', ''memory''],
      no_check_hostname = False, colors = [''dp1'' \<mapsto> ''#0''], datapoints = Some 3,
      interval = Some 1000, random = sconst 0,
      charts = [(''cpu'', Some \<lparr>labels = [Num 1], datasets = [\<lparr>ds_label = ''dp1'', ds_borderColor = Some ''#0'', ds_data = [Num 10]\<rparr>]\<rparr>),
                (''memory'', Some \<lparr>labels = [Num 1], datasets = [\<lparr>ds_label = ''dp1'', ds_borderColor = Some ''#0'', ds_data = [Num 20]\<rparr>]\<rparr>)],
      containers = [''cpu'', ''memory''], timeout = Some 0, timers = [], next_timer = 1,
      requests = [\<lparr>req_appliances = [''dp1''], req_credentials = [''admin:pwk_''],
                   req_providers = [''cpu'', ''memory''], req_check_hostname = True\<rparr>],
      dom_log = [Created ''cpu'', Created ''memory'']\<rparr>"
proof -
  have "run ext0 [Change [''cpu'', ''memory''], Success 0 tick_full, Click, Fire 0] page_monitoring =
        step ext0 (Fire 0) (step ext0 Click
          (run ext0 [Change [''cpu'', ''memory''], Success 0 tick_full] page_monitoring))"
    by (simp add: run_def)
  then show ?thesis
    unfolding monitoring_ticked by (simp add: plugin_defs scenario_defs)
qed

text \<open>
  C8. Stopping cancels nothing: the click that turns the button from "Stop" to "Start" only
  changes the button; the pending timer and the requests in flight stay. Whatever happens
  afterwards short of another click (timers firing, responses arriving or failing, checkbox
  and appliance changes), \<^verbatim>\<open>setTimeout\<close> is never called again: the number of the next timer
  stays the same and the pending timers can only become fewer. Scenario C is the witness.
\<close>

theorem stop_does_not_reschedule:
  assumes "statusCharting s = Stop" and "Click \<notin> set evs"
  shows "statusCharting (click ext s) = Start \<and> timers (click ext s) = timers s \<and>
         timeout (click ext s) = timeout s \<and> requests (click ext s) = requests s \<and>
         next_timer (run ext evs (click ext s)) = next_timer s \<and>
         set (timers (run ext evs (click ext s))) \<subseteq> set (timers s)"
proof -
  have c: "click ext s = s\<lparr>statusCharting := Start\<rparr>"
    using assms(1) by (simp add: click_def)
  have "statusCharting (click ext s) = Start"
    using c by simp
  from run_while_idle [OF this assms(2)] c show ?thesis
    by simp
qed

theorem stop_does_not_reschedule_witness:
  "statusCharting (run ext0 [Change [''cpu'', ''memory''], Success 0 tick_full] page_monitoring) = Stop \<and>
   Click \<notin> set [Fire 0, Success 0 tick_full] \<and>
   timers (run ext0 [Change [''cpu'', ''memory''], Success 0 tick_full] page_monitoring) = [0] \<and>
   timers (click ext0 (run ext0 [Change [''cpu'', ''memory''], Success 0 tick_full] page_monitoring)) = [0] \<and>
   next_timer (run ext0 [Fire 0, Success 0 tick_full]
      (click ext0 (run ext0 [Change [''cpu'', ''memory''], Success 0 tick_full] page_monitoring))) = 1 \<and>
   timers (run ext0 [Fire 0, Success 0 tick_full]
      (click ext0 (run ext0 [Change [''cpu'', ''memory''], Success 0 tick_full] page_monitoring))) = []"
proof -
  have a: "statusCharting (run ext0 [Change [''cpu'', ''memory''], Success 0 tick_full] page_monitoring) = Stop"
    by (simp add: monitoring_ticked)
  have b: "Click \<notin> set [Fire 0, Success 0 tick_full]"
    by simp
  have c: "timers (run ext0 [Fire 0, Success 0 tick_full]
      (click ext0 (run ext0 [Change [''cpu'', ''memory''], Success 0 tick_full] page_monitoring))) = []"
    unfolding monitoring_ticked by (simp add: plugin_defs scenario_defs)
  show ?thesis
    using stop_does_not_reschedule [OF a b, of ext0] c
    by (simp add: monitoring_ticked)
qed

text \<open>
  C9. While the button displays "Start", the success callback does nothing at all; the
  response event only takes the answered request out of those in flight. Charts, containers
  and timers are as before.
\<close>

theorem idle_response_is_dropped:
  assumes "statusCharting s = Start"
  shows "success ext data s = s \<and>
         charts (step ext (Success i data) s) = charts s \<and>
         containers (step ext (Success i data) s) = containers s \<and>
         timers (step ext (Success i data) s) = timers s \<and>
         timeout (step ext (Success i data) s) = timeout s \<and>
         next_timer (step ext (Success i data) s) = next_timer s"
  using assms by (simp add: success_gated drop_request_def)

theorem idle_response_is_dropped_witness:
  "statusCharting (run ext0 [Change [''cpu'', ''memory''], Success 0 tick_full, Click, Fire 0] page_monitoring) = Start \<and>
   series_of (step ext0 (Success 0 tick_full)
      (run ext0 [Change [''cpu'', ''memory''], Success 0 tick_full, Click, Fire 0] page_monitoring)) ''cpu''
     = Some ([Num 1], [[Num 10]]) \<and>
   timers (step ext0 (Success 0 tick_full)
      (run ext0 [Change [''cpu'', ''memory''], Success 0 tick_full, Click, Fire 0] page_monitoring)) = []"
proof -
  have a: "statusCharting (run ext0 [Change [''cpu'', ''memory''], Success 0 tick_full, Click, Fire 0] page_monitoring) = Start"
    by (simp add: monitoring_stopped)
  show ?thesis
    using idle_response_is_dropped [OF a, of ext0 tick_full 0]
    by (simp add: monitoring_stopped series_of_def chart_of_def)
qed

section \<open>Appending samples\<close>

lemma shift_tl: "array_shift xs = tl xs"
  by (cases xs) (simp_all add: array_shift_def)

lemma push_values_missing:
  "apps \<noteq> [] \<Longrightarrow> push_values None i apps dss = (Some TypeError, dss)"
  by (cases apps) simp_all

lemma push_values_ok:
  "i + length apps \<le> length dss \<Longrightarrow>
   fst (push_values (Some vs) i apps dss) = None \<and>
   length (snd (push_values (Some vs) i apps dss)) = length dss \<and>
   (\<forall>j < length dss. snd (push_values (Some vs) i apps dss) ! j =
      (if i \<le> j \<and> j < i + length apps
       then (dss ! j)\<lparr>ds_data := ds_data (dss ! j) @ [at_index vs j]\<rparr> else dss ! j))"
proof (induction apps arbitrary: i dss)
  case Nil
  then show ?case by simp
next
  case (Cons a apps)
  let ?dss1 = "dss[i := (dss ! i)\<lparr>ds_data := ds_data (dss ! i) @ [at_index vs i]\<rparr>]"
  have i: "i < length dss" and rest: "Suc i + length apps \<le> length ?dss1"
    using Cons.prems by simp_all
  have unfold: "push_values (Some vs) i (a # apps) dss = push_values (Some vs) (Suc i) apps ?dss1"
    using i by simp
  have ih: "fst (push_values (Some vs) (Suc i) apps ?dss1) = None \<and>
     length (snd (push_values (Some vs) (Suc i) apps ?dss1)) = length ?dss1 \<and>
     (\<forall>j < length ?dss1. snd (push_values (Some vs) (Suc i) apps ?dss1) ! j =
        (if Suc i \<le> j \<and> j < Suc i + length apps
         then (?dss1 ! j)\<lparr>ds_data := ds_data (?dss1 ! j) @ [at_index vs j]\<rparr> else ?dss1 ! j))"
    using Cons.IH [OF rest] .
  show ?case
  proof (intro conjI allI impI)
    show "fst (push_values (Some vs) i (a # apps) dss) = None"
      using unfold ih by simp
    show "length (snd (push_values (Some vs) i (a # apps) dss)) = length dss"
      using unfold ih by simp
  next
    fix j assume j: "j < length dss"
    then have "snd (push_values (Some vs) (Suc i) apps ?dss1) ! j =
        (if Suc i \<le> j \<and> j < Suc i + length apps
         then (?dss1 ! j)\<lparr>ds_data := ds_data (?dss1 ! j) @ [at_index vs j]\<rparr> else ?dss1 ! j)"
      using ih by simp
    then show "snd (push_values (Some vs) i (a # apps) dss) ! j =
      (if i \<le> j \<and> j < i + length (a # apps)
       then (dss ! j)\<lparr>ds_data := ds_data (dss ! j) @ [at_index vs j]\<rparr> else dss ! j)"
      unfolding unfold using i j by (cases "j = i") auto
  qed
qed

lemma add_data_chart_missing:
  assumes "resp_values data p = None" and "resp_appliances data \<noteq> []"
  shows "add_data_chart cap p data c = (Some TypeError, c\<lparr>labels := labels c @ [resp_time data]\<rparr>)"
  using assms by (simp add: add_data_chart_def push_values_missing)

lemma add_data_chart_ok:
  assumes vs: "resp_values data p = Some vs"
    and len: "length (resp_appliances data) = length (datasets c)"
    and ne: "datasets c \<noteq> []"
    and al: "aligned c"
  shows "fst (add_data_chart cap p data c) = None"
    and "labels (snd (add_data_chart cap p data c)) = capped cap (labels c @ [resp_time data])"
    and "length (datasets (snd (add_data_chart cap p data c))) = length (datasets c)"
    and "\<forall>j < length (datasets c). ds_data (datasets (snd (add_data_chart cap p data c)) ! j) =
           capped cap (ds_data (datasets c ! j) @ [at_index vs j])"
    and "aligned (snd (add_data_chart cap p data c))"
proof -
  let ?pv = "push_values (Some vs) 0 (resp_appliances data) (datasets c)"
  obtain dss where pv: "?pv = (None, dss)"
    and ldss: "length dss = length (datasets c)"
    and nth: "\<forall>j < length (datasets c). dss ! j =
         (datasets c ! j)\<lparr>ds_data := ds_data (datasets c ! j) @ [at_index vs j]\<rparr>"
    using push_values_ok [of 0 "resp_appliances data" "datasets c" vs] len
    by (cases ?pv) auto
  obtain d0 rest where dss: "dss = d0 # rest"
    using ne ldss by (cases dss) auto
  have lens: "\<forall>j < length (datasets c). length (ds_data (datasets c ! j)) = length (labels c)"
    using al by (simp add: aligned_def list_all_length)
  have d0: "length (ds_data d0) = Suc (length (labels c))"
  proof -
    have z: "0 < length (datasets c)"
      using ne by simp
    have "dss ! 0 = (datasets c ! 0)\<lparr>ds_data := ds_data (datasets c ! 0) @ [at_index vs 0]\<rparr>"
      using nth z by blast
    moreover have "length (ds_data (datasets c ! 0)) = length (labels c)"
      using lens z by blast
    ultimately show ?thesis
      using dss by simp
  qed
  let ?ev = "case cap of None \<Rightarrow> False | Some n \<Rightarrow> int (Suc (length (labels c))) > n"
  have res: "add_data_chart cap p data c =
      (None, if ?ev
             then c\<lparr>labels := array_shift (labels c @ [resp_time data]),
                    datasets := map (\<lambda>d. d\<lparr>ds_data := array_shift (ds_data d)\<rparr>) dss\<rparr>
             else c\<lparr>labels := labels c @ [resp_time data], datasets := dss\<rparr>)"
    using vs pv dss d0 by (simp add: add_data_chart_def Let_def split: option.splits)
  show "fst (add_data_chart cap p data c) = None"
    using res by simp
  show "labels (snd (add_data_chart cap p data c)) = capped cap (labels c @ [resp_time data])"
    using res by (simp add: capped_def split: option.splits)
  show "length (datasets (snd (add_data_chart cap p data c))) = length (datasets c)"
    using res ldss by simp
  show "\<forall>j < length (datasets c). ds_data (datasets (snd (add_data_chart cap p data c)) ! j) =
           capped cap (ds_data (datasets c ! j) @ [at_index vs j])"
    using res ldss nth lens by (auto simp: capped_def split: option.splits)
  show "aligned (snd (add_data_chart cap p data c))"
    using res ldss nth lens by (simp add: aligned_def list_all_length shift_tl)
qed

subsection \<open>Alignment and the cap\<close>

lemma map_of_assign: "map_of (assign k v kvs) = (map_of kvs)(k \<mapsto> v)"
  by (induction kvs) auto

lemma chart_of_assigned:
  "chart_of (s\<lparr>charts := assign p (Some c) (charts s)\<rparr>) q = (if q = p then Some c else chart_of s q)"
  by (simp add: chart_of_def map_of_assign)

lemma add_data_provider_fits:
  assumes "fits data s p" and "resp_values data p \<noteq> None"
  shows "fst (add_data_provider data p s) = None \<and>
         (\<forall>q. fits data s q \<longrightarrow> fits data (snd (add_data_provider data p s)) q)"
proof -
  obtain c where c: "chart_of s p = Some c" "aligned c" "datasets c \<noteq> []"
      "length (resp_appliances data) = length (datasets c)"
    using assms(1) by (auto simp: fits_def split: option.splits)
  obtain vs where vs: "resp_values data p = Some vs"
    using assms(2) by auto
  obtain e c' where r: "add_data_chart (datapoints s) p data c = (e, c')"
    by (cases "add_data_chart (datapoints s) p data c")
  have e: "e = None" and al: "aligned c'" and len: "length (datasets c') = length (datasets c)"
    using add_data_chart_ok(1,3,5) [OF vs c(4) c(3) c(2), of "datapoints s"] r by simp_all
  have ne: "datasets c' \<noteq> []"
    using len c(3) by auto
  have st: "add_data_provider data p s = (None, s\<lparr>charts := assign p (Some c') (charts s)\<rparr>)"
    using c(1) r e by (simp add: add_data_provider_def)
  have "fits data (s\<lparr>charts := assign p (Some c') (charts s)\<rparr>) q" if "fits data s q" for q
    using that al ne len c(4) by (simp add: fits_def chart_of_assigned)
  then show ?thesis
    using st by simp
qed










section \<open>A response without the key of a selected provider\<close>

lemma add_data_provider_missing:
  assumes "resp_values data p = None" and "resp_appliances data \<noteq> []"
  shows "fst (add_data_provider data p s) = Some TypeError"
  using assms by (simp add: add_data_provider_def add_data_chart_missing split: option.splits)

lemma add_data_provider_other:
  "q \<noteq> p \<Longrightarrow> chart_of (snd (add_data_provider data p s)) q = chart_of s q"
  by (simp add: add_data_provider_def chart_of_assigned split: option.splits prod.splits)

lemma add_data_each_other:
  "q \<notin> set ps \<Longrightarrow> chart_of (snd (add_data_each data ps s)) q = chart_of s q"
proof (induction ps arbitrary: s)
  case Nil
  show ?case by simp
next
  case (Cons p ps)
  obtain e s' where st: "add_data_provider data p s = (e, s')"
    by (cases "add_data_provider data p s")
  have "chart_of s' q = chart_of s q"
    using add_data_provider_other [of q p data s] st Cons.prems by simp
  moreover have "chart_of (snd (add_data_each data ps s')) q = chart_of s' q"
    using Cons.IH [of s'] Cons.prems by simp
  ultimately show ?case
    using st by (cases e) simp_all
qed

lemma add_data_each_stops:
  assumes "\<And>s'. fst (add_data_provider data p s') = Some TypeError"
  shows "add_data_each data (xs @ p # ys) s = add_data_each data (xs @ [p]) s \<and>
         fst (add_data_each data (xs @ [p]) s) = Some TypeError"
proof (induction xs arbitrary: s)
  case Nil
  obtain e s' where st: "add_data_provider data p s = (e, s')"
    by (cases "add_data_provider data p s")
  then have "e = Some TypeError"
    using assms [of s] by simp
  with st show ?case by simp
next
  case (Cons x xs)
  obtain e s' where st: "add_data_provider data x s = (e, s')"
    by (cases "add_data_provider data x s")
  show ?case
  proof (cases e)
    case None
    with st Cons.IH [of s'] show ?thesis by simp
  next
    case (Some err)
    then have "err = TypeError" by (cases err) simp
    with Some st show ?thesis by simp
  qed
qed

lemma reached_split:
  assumes "p \<in> set providers" and "resp_values data p = None"
  shows "\<exists>xs q ys. providers = xs @ q # ys \<and> reached data providers = xs @ [q] \<and>
           resp_values data q = None"
proof -
  let ?P = "\<lambda>p. resp_values data p \<noteq> None"
  have "dropWhile ?P providers \<noteq> []"
    using assms by (auto simp: dropWhile_eq_Nil_conv)
  then obtain q ys where dw: "dropWhile ?P providers = q # ys"
    by (cases "dropWhile ?P providers") auto
  then have "\<not> ?P q"
    using hd_dropWhile [of ?P providers] by force
  moreover have "providers = takeWhile ?P providers @ q # ys"
    by (metis takeWhile_dropWhile_id dw)
  ultimately show ?thesis
    using dw by (auto simp: reached_def)
qed

lemma add_data_chart_sample:
  assumes vs: "resp_values data p = Some vs"
    and len: "length (resp_appliances data) = length (datasets c)"
    and ne: "datasets c \<noteq> []"
    and al: "aligned c"
  shows "add_data_chart cap p data c = (None, with_sample cap data p c)"
proof -
  let ?pv = "push_values (Some vs) 0 (resp_appliances data) (datasets c)"
  obtain dss where pv: "?pv = (None, dss)"
    and ldss: "length dss = length (datasets c)"
    and nth: "\<forall>j < length (datasets c). dss ! j =
         (datasets c ! j)\<lparr>ds_data := ds_data (datasets c ! j) @ [at_index vs j]\<rparr>"
    using push_values_ok [of 0 "resp_appliances data" "datasets c" vs] len
    by (cases ?pv) auto
  obtain d0 rest where dss: "dss = d0 # rest"
    using ne ldss by (cases dss) auto
  have lens: "\<forall>j < length (datasets c). length (ds_data (datasets c ! j)) = length (labels c)"
    using al by (simp add: aligned_def list_all_length)
  have d0: "length (ds_data d0) = Suc (length (labels c))"
  proof -
    have z: "0 < length (datasets c)"
      using ne by simp
    have "dss ! 0 = (datasets c ! 0)\<lparr>ds_data := ds_data (datasets c ! 0) @ [at_index vs 0]\<rparr>"
      using nth z by blast
    moreover have "length (ds_data (datasets c ! 0)) = length (labels c)"
      using lens z by blast
    ultimately show ?thesis
      using dss by simp
  qed
  let ?ev = "case cap of None \<Rightarrow> False | Some n \<Rightarrow> int (Suc (length (labels c))) > n"
  have res: "add_data_chart cap p data c =
      (None, if ?ev
             then c\<lparr>labels := array_shift (labels c @ [resp_time data]),
                    datasets := map (\<lambda>d. d\<lparr>ds_data := array_shift (ds_data d)\<rparr>) dss\<rparr>
             else c\<lparr>labels := labels c @ [resp_time data], datasets := dss\<rparr>)"
    using vs pv dss d0 by (simp add: add_data_chart_def Let_def split: option.splits)
  have lab: "(if ?ev then array_shift (labels c @ [resp_time data]) else labels c @ [resp_time data])
      = capped cap (labels c @ [resp_time data])"
    by (simp add: capped_def split: option.splits)
  have dat: "(if ?ev then map (\<lambda>d. d\<lparr>ds_data := array_shift (ds_data d)\<rparr>) dss else dss)
      = map (\<lambda>j. (datasets c ! j)\<lparr>ds_data :=
                  capped cap (ds_data (datasets c ! j) @ [at_index vs j])\<rparr>)
             [0..<length (datasets c)]"
  proof (rule nth_equalityI)
    show "length (if ?ev then map (\<lambda>d. d\<lparr>ds_data := array_shift (ds_data d)\<rparr>) dss else dss) =
      length (map (\<lambda>j. (datasets c ! j)\<lparr>ds_data :=
                  capped cap (ds_data (datasets c ! j) @ [at_index vs j])\<rparr>) [0..<length (datasets c)])"
      using ldss by simp
  next
    fix j assume "j < length (if ?ev then map (\<lambda>d. d\<lparr>ds_data := array_shift (ds_data d)\<rparr>) dss else dss)"
    then have j: "j < length (datasets c)"
      using ldss by (simp split: if_splits)
    have dj: "dss ! j = (datasets c ! j)\<lparr>ds_data := ds_data (datasets c ! j) @ [at_index vs j]\<rparr>"
      using nth j by blast
    have lj: "length (ds_data (datasets c ! j)) = length (labels c)"
      using lens j by blast
    show "(if ?ev then map (\<lambda>d. d\<lparr>ds_data := array_shift (ds_data d)\<rparr>) dss else dss) ! j =
      map (\<lambda>j. (datasets c ! j)\<lparr>ds_data :=
                  capped cap (ds_data (datasets c ! j) @ [at_index vs j])\<rparr>) [0..<length (datasets c)] ! j"
      using j ldss dj lj by (simp add: capped_def split: option.splits)
  qed
  have "add_data_chart cap p data c =
      (None, c\<lparr>labels := capped cap (labels c @ [resp_time data]),
               datasets := map (\<lambda>j. (datasets c ! j)\<lparr>ds_data :=
                  capped cap (ds_data (datasets c ! j) @ [at_index vs j])\<rparr>)
             [0..<length (datasets c)]\<rparr>)"
    unfolding res lab [symmetric] dat [symmetric] by simp
  then show ?thesis
    using vs by (simp add: with_sample_def)
qed

lemma add_data_provider_sample:
  assumes "fits data s p" and "resp_values data p \<noteq> None"
  shows "\<exists>c. chart_of s p = Some c \<and>
           add_data_provider data p s =
             (None, s\<lparr>charts := assign p (Some (with_sample (datapoints s) data p c)) (charts s)\<rparr>)"
proof -
  obtain c where c: "chart_of s p = Some c" "aligned c" "datasets c \<noteq> []"
      "length (resp_appliances data) = length (datasets c)"
    using assms(1) by (auto simp: fits_def split: option.splits)
  obtain vs where vs: "resp_values data p = Some vs"
    using assms(2) by auto
  have "add_data_chart (datapoints s) p data c = (None, with_sample (datapoints s) data p c)"
    using add_data_chart_sample [OF vs c(4) c(3) c(2)] .
  then have "add_data_provider data p s =
             (None, s\<lparr>charts := assign p (Some (with_sample (datapoints s) data p c)) (charts s)\<rparr>)"
    using c(1) by (simp add: add_data_provider_def)
  with c(1) show ?thesis by blast
qed

lemma add_data_each_samples:
  assumes "distinct ps" and "\<forall>p\<in>set ps. fits data s p \<and> resp_values data p \<noteq> None"
  shows "fst (add_data_each data ps s) = None \<and>
         datapoints (snd (add_data_each data ps s)) = datapoints s \<and>
         (\<forall>r. chart_of (snd (add_data_each data ps s)) r =
               (if r \<in> set ps then map_option (with_sample (datapoints s) data r) (chart_of s r)
                else chart_of s r))"
  using assms
proof (induction ps arbitrary: s)
  case Nil
  show ?case by simp
next
  case (Cons p ps)
  have fp: "fits data s p" "resp_values data p \<noteq> None"
    using Cons.prems(2) by simp_all
  obtain c where c: "chart_of s p = Some c"
    and st: "add_data_provider data p s =
             (None, s\<lparr>charts := assign p (Some (with_sample (datapoints s) data p c)) (charts s)\<rparr>)"
    using add_data_provider_sample [OF fp] by blast
  let ?s1 = "s\<lparr>charts := assign p (Some (with_sample (datapoints s) data p c)) (charts s)\<rparr>"
  have keep: "\<forall>q. fits data s q \<longrightarrow> fits data ?s1 q"
    using add_data_provider_fits [OF fp] st by simp
  have pre1: "\<forall>q\<in>set ps. fits data ?s1 q \<and> resp_values data q \<noteq> None"
    using Cons.prems(2) keep by simp
  have d1: "distinct ps" and np: "p \<notin> set ps"
    using Cons.prems(1) by simp_all
  note ih = Cons.IH [OF d1 pre1]
  have run: "add_data_each data (p # ps) s = add_data_each data ps ?s1"
    using st by simp
  have c1: "chart_of ?s1 r = (if r = p then Some (with_sample (datapoints s) data p c) else chart_of s r)" for r
    by (rule chart_of_assigned)
  have "chart_of (snd (add_data_each data ps ?s1)) r =
               (if r \<in> set (p # ps) then map_option (with_sample (datapoints s) data r) (chart_of s r)
                else chart_of s r)" for r
  proof -
    have "chart_of (snd (add_data_each data ps ?s1)) r =
               (if r \<in> set ps then map_option (with_sample (datapoints ?s1) data r) (chart_of ?s1 r)
                else chart_of ?s1 r)"
      using ih by blast
    then show ?thesis
      using np c c1 [of r] by (cases "r = p") auto
  qed
  then show ?case
    unfolding run using ih by simp
qed

lemma add_data_each_append:
  "add_data_each data (xs @ ys) s =
     (case add_data_each data xs s of
        (Some e, s') \<Rightarrow> (Some e, s')
      | (None, s') \<Rightarrow> add_data_each data ys s')"
proof (induction xs arbitrary: s)
  case Nil
  show ?case by simp
next
  case (Cons x xs)
  obtain e s' where st: "add_data_provider data x s = (e, s')"
    by (cases "add_data_provider data x s")
  show ?case
    using st Cons.IH [of s'] by (cases e) simp_all
qed

lemma add_data_provider_label_only:
  assumes "resp_values data q = None" and "resp_appliances data \<noteq> []"
  shows "chart_of (snd (add_data_provider data q s)) r =
           (if r = q then map_option (with_label data) (chart_of s q) else chart_of s r)"
proof (cases "chart_of s q")
  case None
  then show ?thesis
    by (simp add: add_data_provider_def)
next
  case (Some c)
  then show ?thesis
    using assms by (simp add: add_data_provider_def add_data_chart_missing chart_of_assigned with_label_def)
qed

lemma reached_parts:
  assumes "p \<in> set providers" and "resp_values data p = None"
  shows "reached data providers = before_missing data providers @ [first_missing data providers]"
    and "resp_values data (first_missing data providers) = None"
    and "first_missing data providers \<notin> set (before_missing data providers)"
    and "\<forall>r\<in>set (before_missing data providers). resp_values data r \<noteq> None"
proof -
  let ?P = "\<lambda>p. resp_values data p \<noteq> None"
  have "dropWhile ?P providers \<noteq> []"
    using assms by (auto simp: dropWhile_eq_Nil_conv)
  then obtain q ys where dw: "dropWhile ?P providers = q # ys"
    by (cases "dropWhile ?P providers") auto
  then have nq: "\<not> ?P q"
    using hd_dropWhile [of ?P providers] by force
  show "reached data providers = before_missing data providers @ [first_missing data providers]"
    using dw by (simp add: reached_def before_missing_def first_missing_def)
  show "resp_values data (first_missing data providers) = None"
    using dw nq by (simp add: first_missing_def)
  show all: "\<forall>r\<in>set (before_missing data providers). resp_values data r \<noteq> None"
    unfolding before_missing_def by (metis set_takeWhileD)
  show "first_missing data providers \<notin> set (before_missing data providers)"
    using all dw nq by (auto simp: first_missing_def)
qed

text \<open>
  C3, as amended. The samples of a tick are committed provider by provider, in the order of
  the selection; nothing is rolled back. When the response has no key for a selected
  provider (and lists at least one appliance), \<^verbatim>\<open>add_data\<close> throws; the callback sets no
  timer; the state it leaves is the one reached by running the loop over the providers up
  to and including the first one without a key; the charts of all other providers are
  untouched. When the providers before that first one are distinct and the response fits
  their charts, each of them holds its chart with the sample appended (and cut to the
  cap), and the provider without a key holds its chart with the label appended and its
  datasets as they were.
\<close>

theorem missing_key_commits_a_prefix:
  assumes "statusCharting s = Stop" and "p \<in> set (checked s)"
    and "resp_values data p = None" and "resp_appliances data \<noteq> []"
  shows "fst (add_data data s) = Some TypeError \<and>
         success ext data s = snd (add_data_each data (reached data (checked s)) s) \<and>
         timers (success ext data s) = timers s \<and>
         timeout (success ext data s) = timeout s \<and>
         next_timer (success ext data s) = next_timer s \<and>
         (\<forall>q. q \<notin> set (reached data (checked s)) \<longrightarrow>
              chart_of (success ext data s) q = chart_of s q) \<and>
         (distinct (before_missing data (checked s)) \<and>
          (\<forall>r\<in>set (before_missing data (checked s)). fits data s r) \<longrightarrow>
            (\<forall>r\<in>set (before_missing data (checked s)).
                chart_of (success ext data s) r =
                  map_option (with_sample (datapoints s) data r) (chart_of s r)) \<and>
            chart_of (success ext data s) (first_missing data (checked s)) =
              map_option (with_label data) (chart_of s (first_missing data (checked s))))"
proof -
  obtain xs q ys where sp: "checked s = xs @ q # ys" "reached data (checked s) = xs @ [q]"
      "resp_values data q = None"
    using reached_split [OF assms(2,3)] by blast
  have thr: "\<And>s'. fst (add_data_provider data q s') = Some TypeError"
    using add_data_provider_missing [OF sp(3) assms(4)] .
  have stop: "add_data_each data (xs @ q # ys) s = add_data_each data (xs @ [q]) s"
    and err: "fst (add_data_each data (xs @ [q]) s) = Some TypeError"
    using add_data_each_stops [of data q xs ys s, OF thr] by simp_all
  have ad: "add_data data s = add_data_each data (reached data (checked s)) s"
    using stop sp by (simp add: add_data_def get_selected_providers_def)
  have e: "fst (add_data data s) = Some TypeError"
    using ad err sp by simp
  have su: "success ext data s = snd (add_data data s)"
    using e assms(1) by (cases "add_data data s") (simp add: success_def)
  have "fst (add_data data s) \<noteq> None"
    using e by simp
  then have tm: "timers (success ext data s) = timers s" "timeout (success ext data s) = timeout s"
      "next_timer (success ext data s) = next_timer s"
    using success_no_timer [of s data ext] by simp_all
  have oth: "\<forall>q. q \<notin> set (reached data (checked s)) \<longrightarrow>
              chart_of (success ext data s) q = chart_of s q"
    using su ad add_data_each_other by simp
  let ?pre = "before_missing data (checked s)"
  let ?q = "first_missing data (checked s)"
  note rp = reached_parts [OF assms(2,3)]
  have abs: "(\<forall>r\<in>set ?pre. chart_of (success ext data s) r =
                  map_option (with_sample (datapoints s) data r) (chart_of s r)) \<and>
            chart_of (success ext data s) ?q = map_option (with_label data) (chart_of s ?q)"
    if d: "distinct ?pre" and f: "\<forall>r\<in>set ?pre. fits data s r"
  proof -
    have pre: "\<forall>r\<in>set ?pre. fits data s r \<and> resp_values data r \<noteq> None"
      using f rp(4) by simp
    obtain s1 where r1: "add_data_each data ?pre s = (None, s1)"
      and ch1: "\<forall>r. chart_of s1 r =
               (if r \<in> set ?pre then map_option (with_sample (datapoints s) data r) (chart_of s r)
                else chart_of s r)"
      using add_data_each_samples [OF d pre] by (cases "add_data_each data ?pre s") auto
    have "add_data_each data (?pre @ [?q]) s = add_data_each data [?q] s1"
      using r1 by (simp add: add_data_each_append)
    then have fin: "snd (add_data_each data (?pre @ [?q]) s) = snd (add_data_provider data ?q s1)"
      by (simp split: prod.splits option.splits)
    have s': "success ext data s = snd (add_data_provider data ?q s1)"
      using su ad rp(1) fin by simp
    have lo: "chart_of (success ext data s) r =
           (if r = ?q then map_option (with_label data) (chart_of s1 ?q) else chart_of s1 r)" for r
      unfolding s' using add_data_provider_label_only [OF rp(2) assms(4)] .
    have q1: "chart_of s1 ?q = chart_of s ?q"
      using ch1 rp(3) by simp
    have "chart_of (success ext data s) r =
                  map_option (with_sample (datapoints s) data r) (chart_of s r)" if "r \<in> set ?pre" for r
    proof -
      have "r \<noteq> ?q"
        using that rp(3) by auto
      then show ?thesis
        using lo [of r] ch1 that by simp
    qed
    moreover have "chart_of (success ext data s) ?q = map_option (with_label data) (chart_of s ?q)"
      using lo [of ?q] q1 by simp
    ultimately show ?thesis
      by blast
  qed
  show ?thesis
    using e su ad tm oth abs by simp
qed


theorem missing_key_commits_a_prefix_witness:
  "statusCharting (run ext0 [Change [''cpu'', ''memory'']] page_monitoring) = Stop \<and>
   ''memory'' \<in> set (checked (run ext0 [Change [''cpu'', ''memory'']] page_monitoring)) \<and>
   resp_values tick_no_memory ''memory'' = None \<and> resp_appliances tick_no_memory \<noteq> [] \<and>
   before_missing tick_no_memory (checked (run ext0 [Change [''cpu'', ''memory'']] page_monitoring)) = [''cpu''] \<and>
   first_missing tick_no_memory (checked (run ext0 [Change [''cpu'', ''memory'']] page_monitoring)) = ''memory'' \<and>
   fits tick_no_memory (run ext0 [Change [''cpu'', ''memory'']] page_monitoring) ''cpu'' \<and>
   fst (add_data tick_no_memory (run ext0 [Change [''cpu'', ''memory'']] page_monitoring)) = Some TypeError \<and>
   timers (success ext0 tick_no_memory (run ext0 [Change [''cpu'', ''memory'']] page_monitoring)) = [] \<and>
   timeout (success ext0 tick_no_memory (run ext0 [Change [''cpu'', ''memory'']] page_monitoring)) = None \<and>
   series_of (run ext0 [Change [''cpu'', ''memory'']] page_monitoring) ''cpu'' = Some ([], [[]]) \<and>
   series_of (success ext0 tick_no_memory (run ext0 [Change [''cpu'', ''memory'']] page_monitoring)) ''cpu''
     = Some ([Num 1], [[Num 10]]) \<and>
   series_of (success ext0 tick_no_memory (run ext0 [Change [''cpu'', ''memory'']] page_monitoring)) ''memory''
     = Some ([Num 1], [[]])"
proof -
  define sD where "sD = run ext0 [Change [''cpu'', ''memory'']] page_monitoring"
  have a: "statusCharting sD = Stop" and b: "''memory'' \<in> set (checked sD)"
    and tm: "timers sD = []" "timeout sD = None" and dp: "datapoints sD = Some 3"
    unfolding sD_def by (simp_all add: monitoring_charted)
  have c: "resp_values tick_no_memory ''memory'' = None" and d: "resp_appliances tick_no_memory \<noteq> []"
    by (simp_all add: tick_no_memory_def)
  have bm: "before_missing tick_no_memory (checked sD) = [''cpu'']"
    and fm: "first_missing tick_no_memory (checked sD) = ''memory''"
    unfolding sD_def
    by (simp_all add: monitoring_charted before_missing_def first_missing_def tick_no_memory_def)
  have cc: "chart_of sD ''cpu'' = Some \<lparr>labels = [], datasets = [\<lparr>ds_label = ''dp1'', ds_borderColor = Some ''#0'', ds_data = []\<rparr>]\<rparr>"
    and cm: "chart_of sD ''memory'' = Some \<lparr>labels = [], datasets = [\<lparr>ds_label = ''dp1'', ds_borderColor = Some ''#0'', ds_data = []\<rparr>]\<rparr>"
    unfolding sD_def by (simp_all add: monitoring_charted chart_of_def)
  have ft: "fits tick_no_memory sD ''cpu''"
    using cc by (simp add: fits_def aligned_def tick_no_memory_def)
  note th = missing_key_commits_a_prefix [OF a b c d, of ext0]
  have e: "fst (add_data tick_no_memory sD) = Some TypeError"
    using th by (rule conjunct1)
  have t1: "timers (success ext0 tick_no_memory sD) = timers sD"
    using th by (elim conjE)
  have t2: "timeout (success ext0 tick_no_memory sD) = timeout sD"
    using th by (elim conjE)
  have "distinct (before_missing tick_no_memory (checked sD)) \<and>
          (\<forall>r\<in>set (before_missing tick_no_memory (checked sD)). fits tick_no_memory sD r) \<longrightarrow>
            (\<forall>r\<in>set (before_missing tick_no_memory (checked sD)).
                chart_of (success ext0 tick_no_memory sD) r =
                  map_option (with_sample (datapoints sD) tick_no_memory r) (chart_of sD r)) \<and>
            chart_of (success ext0 tick_no_memory sD) (first_missing tick_no_memory (checked sD)) =
              map_option (with_label tick_no_memory) (chart_of sD (first_missing tick_no_memory (checked sD)))"
    using th by (elim conjE)
  then have k1: "chart_of (success ext0 tick_no_memory sD) ''cpu'' =
        map_option (with_sample (datapoints sD) tick_no_memory ''cpu'') (chart_of sD ''cpu'')"
    and k2: "chart_of (success ext0 tick_no_memory sD) ''memory'' =
        map_option (with_label tick_no_memory) (chart_of sD ''memory'')"
    using bm fm ft by simp_all
  have s0: "series_of sD ''cpu'' = Some ([], [[]])"
    using cc by (simp add: series_of_def)
  have s1: "series_of (success ext0 tick_no_memory sD) ''cpu'' = Some ([Num 1], [[Num 10]])"
    unfolding series_of_def k1 cc dp
    by (simp add: with_sample_def capped_def tick_no_memory_def at_index_def)
  have s2: "series_of (success ext0 tick_no_memory sD) ''memory'' = Some ([Num 1], [[]])"
    unfolding series_of_def k2 cm
    by (simp add: with_label_def tick_no_memory_def)
  have "statusCharting sD = Stop \<and> ''memory'' \<in> set (checked sD) \<and>
     resp_values tick_no_memory ''memory'' = None \<and> resp_appliances tick_no_memory \<noteq> [] \<and>
     before_missing tick_no_memory (checked sD) = [''cpu''] \<and>
     first_missing tick_no_memory (checked sD) = ''memory'' \<and>
     fits tick_no_memory sD ''cpu'' \<and>
     fst (add_data tick_no_memory sD) = Some TypeError \<and>
     timers (success ext0 tick_no_memory sD) = [] \<and>
     timeout (success ext0 tick_no_memory sD) = None \<and>
     series_of sD ''cpu'' = Some ([], [[]]) \<and>
     series_of (success ext0 tick_no_memory sD) ''cpu'' = Some ([Num 1], [[Num 10]]) \<and>
     series_of (success ext0 tick_no_memory sD) ''memory'' = Some ([Num 1], [[]])"
    using a b c d bm fm ft e t1 t2 tm s0 s1 s2 by simp
  then show ?thesis
    unfolding sD_def .
qed


text \<open>
  C3, as stated, fails: with \<^verbatim>\<open>cpu\<close> and \<^verbatim>\<open>memory\<close> selected and a response without the
  key \<^verbatim>\<open>memory\<close>, the series of \<^verbatim>\<open>cpu\<close> has received its sample and the chart of
  \<^verbatim>\<open>memory\<close> a label without a value.
\<close>

theorem missing_key_partial_commit:
  "checked (run ext0 [Change [''cpu'', ''memory'']] page_monitoring) = [''cpu'', ''memory''] \<and>
   resp_values tick_no_memory ''memory'' = None \<and>
   series_of (run ext0 [Change [''cpu'', ''memory'']] page_monitoring) ''cpu'' = Some ([], [[]]) \<and>
   series_of (run ext0 [Change [''cpu'', ''memory''], Success 0 tick_no_memory] page_monitoring) ''cpu''
     = Some ([Num 1], [[Num 10]]) \<and>
   series_of (run ext0 [Change [''cpu'', ''memory''], Success 0 tick_no_memory] page_monitoring) ''memory''
     = Some ([Num 1], [[]])"
proof -
  have "run ext0 [Change [''cpu'', ''memory''], Success 0 tick_no_memory] page_monitoring =
        step ext0 (Success 0 tick_no_memory) (run ext0 [Change [''cpu'', ''memory'']] page_monitoring)"
    by (simp add: run_def)
  then show ?thesis
    unfolding monitoring_charted by (simp add: plugin_defs scenario_defs)
qed

section \<open>Rebuilding the charts\<close>

lemma assign_color_shape:
  "assign_color a s = s\<lparr>colors := colors (assign_color a s), random := random (assign_color a s)\<rparr>"
  by (simp add: assign_color_def randomColor_def split: option.splits)

lemma fold_assign_color_shape:
  "fold assign_color as s =
     s\<lparr>colors := colors (fold assign_color as s), random := random (fold assign_color as s)\<rparr>"
proof (induction as arbitrary: s)
  case Nil
  show ?case by simp
next
  case (Cons a as)
  have "fold assign_color (a # as) s = fold assign_color as (assign_color a s)"
    by simp
  also have "\<dots> = (assign_color a s)\<lparr>colors := colors (fold assign_color as (assign_color a s)),
                      random := random (fold assign_color as (assign_color a s))\<rparr>"
    using Cons.IH [of "assign_color a s"] .
  also have "\<dots> = s\<lparr>colors := colors (fold assign_color as (assign_color a s)),
                      random := random (fold assign_color as (assign_color a s))\<rparr>"
    by (subst assign_color_shape) simp
  finally show ?case by simp
qed

lemma assign_color_keeps: "colors s h \<noteq> None \<Longrightarrow> colors (assign_color a s) h \<noteq> None"
  by (simp add: assign_color_def randomColor_def split: option.splits)

lemma assign_color_sets: "colors (assign_color a s) (hostname a) \<noteq> None"
  by (simp add: assign_color_def randomColor_def split: option.splits)

lemma fold_assign_color_keeps:
  "colors s h \<noteq> None \<Longrightarrow> colors (fold assign_color as s) h \<noteq> None"
proof (induction as arbitrary: s)
  case Nil
  then show ?case by simp
next
  case (Cons a as)
  show ?case
    using Cons.IH [OF assign_color_keeps [OF Cons.prems, of a]] by simp
qed

lemma fold_assign_color_sets:
  "a \<in> set as \<Longrightarrow> colors (fold assign_color as s) (hostname a) \<noteq> None"
proof (induction as arbitrary: s)
  case Nil
  then show ?case by simp
next
  case (Cons b as)
  show ?case
  proof (cases "a = b")
    case True
    then show ?thesis
      using fold_assign_color_keeps [OF assign_color_sets [of b s], of as] by simp
  next
    case False
    then show ?thesis using Cons by simp
  qed
qed

lemma fold_assign_color_done:
  "\<forall>a\<in>set as. colors s (hostname a) \<noteq> None \<Longrightarrow> fold assign_color as s = s"
  by (induction as) (auto simp: assign_color_def)

lemma fold_remove_unselected_shape:
  "\<exists>gone. fold (remove_unselected ps) qs s =
     s\<lparr>containers := filter (\<lambda>p. p \<notin> set qs \<or> p \<in> set ps) (containers s),
       dom_log := dom_log s @ gone\<rparr>"
proof (induction qs arbitrary: s)
  case Nil
  have "fold (remove_unselected ps) [] s =
     s\<lparr>containers := filter (\<lambda>p. p \<notin> set [] \<or> p \<in> set ps) (containers s), dom_log := dom_log s @ []\<rparr>"
    by simp
  then show ?case by blast
next
  case (Cons q qs)
  let ?s1 = "remove_unselected ps q s"
  obtain g1 where s1: "?s1 = s\<lparr>containers := filter (\<lambda>p. p \<noteq> q \<or> p \<in> set ps) (containers s),
       dom_log := dom_log s @ g1\<rparr>"
  proof (cases "q \<in> set ps")
    case True
    then have "?s1 = s\<lparr>containers := filter (\<lambda>p. p \<noteq> q \<or> p \<in> set ps) (containers s),
       dom_log := dom_log s @ []\<rparr>"
      by (simp add: remove_unselected_def filter_id_conv)
    then show ?thesis using that by blast
  next
    case False
    then have "filter (\<lambda>p. p \<noteq> q) (containers s) = filter (\<lambda>p. p \<noteq> q \<or> p \<in> set ps) (containers s)"
      by (auto intro: filter_cong)
    then have "?s1 = s\<lparr>containers := filter (\<lambda>p. p \<noteq> q \<or> p \<in> set ps) (containers s),
       dom_log := dom_log s @ map Destroyed (filter (\<lambda>p. p = q) (containers s))\<rparr>"
      using False by (simp add: remove_unselected_def)
    then show ?thesis using that by blast
  qed
  obtain g2 where s2: "fold (remove_unselected ps) qs ?s1 =
     ?s1\<lparr>containers := filter (\<lambda>p. p \<notin> set qs \<or> p \<in> set ps) (containers ?s1),
       dom_log := dom_log ?s1 @ g2\<rparr>"
    using Cons.IH [of ?s1] by blast
  have f: "filter (\<lambda>p. p \<notin> set qs \<or> p \<in> set ps) (filter (\<lambda>p. p \<noteq> q \<or> p \<in> set ps) (containers s))
      = filter (\<lambda>p. p \<notin> set (q # qs) \<or> p \<in> set ps) (containers s)"
    by (auto intro: filter_cong)
  have "fold (remove_unselected ps) (q # qs) s =
     s\<lparr>containers := filter (\<lambda>p. p \<notin> set (q # qs) \<or> p \<in> set ps) (containers s),
       dom_log := dom_log s @ (g1 @ g2)\<rparr>"
    using s2 f by (simp add: s1)
  then show ?case by blast
qed

lemma fold_remove_unselected_none:
  "set qs \<subseteq> set ps \<Longrightarrow> fold (remove_unselected ps) qs s = s"
  by (induction qs) (auto simp: remove_unselected_def)

lemma register_chart_shape:
  assumes "appliances s \<noteq> []"
  shows "register_chart p s =
     s\<lparr>charts := assign p (Some (fresh_chart (appliances s) (colors s))) (charts s),
       containers := reappend p (containers s),
       dom_log := dom_log s @ map Destroyed (filter (\<lambda>q. q = p) (containers s)) @ [Created p]\<rparr>"
  using assms by (simp add: register_chart_def initialize_chart_def fresh_chart_def reappend_def Let_def)

lemma fold_register_chart_shape:
  assumes "appliances s \<noteq> []"
  shows "fold register_chart ps s =
     s\<lparr>charts := fold (\<lambda>p. assign p (Some (fresh_chart (appliances s) (colors s)))) ps (charts s),
       containers := fold reappend ps (containers s),
       dom_log := dom_log s @ rebuild_log ps (containers s)\<rparr>"
  using assms
proof (induction ps arbitrary: s)
  case Nil
  show ?case by simp
next
  case (Cons p ps)
  let ?s1 = "register_chart p s"
  have s1: "?s1 = s\<lparr>charts := assign p (Some (fresh_chart (appliances s) (colors s))) (charts s),
       containers := reappend p (containers s),
       dom_log := dom_log s @ map Destroyed (filter (\<lambda>q. q = p) (containers s)) @ [Created p]\<rparr>"
    using register_chart_shape [OF Cons.prems] .
  have ap: "appliances ?s1 \<noteq> []"
    using Cons.prems by (simp add: s1)
  have "fold register_chart (p # ps) s = fold register_chart ps ?s1"
    by simp
  also have "\<dots> = ?s1\<lparr>charts := fold (\<lambda>p. assign p (Some (fresh_chart (appliances ?s1) (colors ?s1)))) ps (charts ?s1),
       containers := fold reappend ps (containers ?s1),
       dom_log := dom_log ?s1 @ rebuild_log ps (containers ?s1)\<rparr>"
    using Cons.IH [OF ap] .
  also have "\<dots> = s\<lparr>charts := fold (\<lambda>p. assign p (Some (fresh_chart (appliances s) (colors s)))) (p # ps) (charts s),
       containers := fold reappend (p # ps) (containers s),
       dom_log := dom_log s @ rebuild_log (p # ps) (containers s)\<rparr>"
    by (simp add: s1)
  finally show ?case .
qed

lemma fold_reappend_split:
  "fold reappend ps cs = filter (\<lambda>q. q \<notin> set ps) cs @ fold reappend ps []"
proof (induction ps rule: rev_induct)
  case Nil
  show ?case by simp
next
  case (snoc p ps)
  have "fold reappend (ps @ [p]) cs = reappend p (fold reappend ps cs)"
    by simp
  also have "\<dots> = reappend p (filter (\<lambda>q. q \<notin> set ps) cs @ fold reappend ps [])"
    using snoc by simp
  also have "\<dots> = filter (\<lambda>q. q \<notin> set (ps @ [p])) cs @ reappend p (fold reappend ps [])"
    by (auto simp: reappend_def intro: filter_cong)
  finally show ?case by simp
qed

lemma set_fold_reappend: "set (fold reappend ps cs) = set cs \<union> set ps"
proof (induction ps arbitrary: cs)
  case Nil
  show ?case by simp
next
  case (Cons p ps)
  show ?case
    using Cons.IH [of "reappend p cs"] by (auto simp: reappend_def)
qed

lemma fold_reappend_twice: "fold reappend ps (fold reappend ps cs) = fold reappend ps cs"
proof -
  have "set (fold reappend ps []) = set ps"
    by (simp add: set_fold_reappend)
  then have gone: "filter (\<lambda>q. q \<notin> set ps) (fold reappend ps []) = []"
    by (simp add: filter_empty_conv)
  have "fold reappend ps (fold reappend ps cs) =
      filter (\<lambda>q. q \<notin> set ps) (fold reappend ps cs) @ fold reappend ps []"
    using fold_reappend_split [of ps "fold reappend ps cs"] .
  also have "fold reappend ps cs = filter (\<lambda>q. q \<notin> set ps) cs @ fold reappend ps []"
    using fold_reappend_split [of ps cs] .
  finally show ?thesis
    using gone fold_reappend_split [of ps cs] by simp
qed

lemma rebuild_log_Created: "p \<in> set ps \<Longrightarrow> Created p \<in> set (rebuild_log ps cs)"
  by (induction ps arbitrary: cs) auto

lemma rebuild_log_Destroyed:
  "p \<in> set ps \<Longrightarrow> p \<in> set cs \<Longrightarrow> Destroyed p \<in> set (rebuild_log ps cs)"
proof (induction ps arbitrary: cs)
  case Nil
  then show ?case by simp
next
  case (Cons q ps)
  show ?case
  proof (cases "p = q")
    case True
    then show ?thesis using Cons.prems by simp
  next
    case False
    then have "p \<in> set ps" and "p \<in> set (reappend q cs)"
      using Cons.prems by (auto simp: reappend_def)
    then show ?thesis
      using Cons.IH by simp
  qed
qed

lemma map_of_fold_assign:
  "map_of (fold (\<lambda>p. assign p v) ps kvs) q = (if q \<in> set ps then Some v else map_of kvs q)"
  by (induction ps arbitrary: kvs) (simp_all add: map_of_assign)

lemma keys_fold_assign: "fst ` set (fold (\<lambda>p. assign p v) ps kvs) = fst ` set kvs \<union> set ps"
proof -
  have "dom (map_of (fold (\<lambda>p. assign p v) ps kvs)) = dom (map_of kvs) \<union> set ps"
    by (auto simp: map_of_fold_assign dom_def)
  then show ?thesis
    by (simp add: dom_map_of_conv_image_fst)
qed

text \<open>The state after \<open>initialize_all\<close> when it gets past its two guards.\<close>

lemma initialize_all_active:
  assumes "statusCharting s = Stop" and "appliances s \<noteq> []"
  shows "\<exists>gone. initialize_all ext s =
     get_data ext
       ((fold assign_color (appliances s) s)
          \<lparr>charts := fold (\<lambda>p. assign p (Some (fresh_chart (appliances s)
                         (colors (fold assign_color (appliances s) s))))) (checked s) [],
           containers := fold reappend (checked s)
              (filter (\<lambda>p. p \<notin> fst ` set (charts s) \<or> p \<in> set (checked s)) (containers s)),
           dom_log := dom_log s @ gone @ rebuild_log (checked s)
              (filter (\<lambda>p. p \<notin> fst ` set (charts s) \<or> p \<in> set (checked s)) (containers s))\<rparr>)"
proof -
  let ?sA = "fold assign_color (appliances s) s"
  have sA: "?sA = s\<lparr>colors := colors ?sA, random := random ?sA\<rparr>"
    using fold_assign_color_shape [of "appliances s" s] .
  have fr: "checked ?sA = checked s" "charts ?sA = charts s" "containers ?sA = containers s"
    "dom_log ?sA = dom_log s" "appliances ?sA = appliances s"
    by (subst sA, simp)+
  let ?ps = "checked s"
  let ?keep = "filter (\<lambda>p. p \<notin> fst ` set (charts s) \<or> p \<in> set ?ps) (containers s)"
  obtain gone where s2: "fold (remove_unselected ?ps) (map fst (charts ?sA)) ?sA =
     ?sA\<lparr>containers := ?keep, dom_log := dom_log s @ gone\<rparr>"
    using fold_remove_unselected_shape [of ?ps "map fst (charts ?sA)" ?sA] fr by auto
  let ?s3 = "?sA\<lparr>containers := ?keep, dom_log := dom_log s @ gone, charts := []\<rparr>"
  have ap3: "appliances ?s3 \<noteq> []"
    using assms(2) fr by simp
  have s4: "fold register_chart ?ps ?s3 =
     ?sA\<lparr>charts := fold (\<lambda>p. assign p (Some (fresh_chart (appliances s) (colors ?sA)))) ?ps [],
       containers := fold reappend ?ps ?keep,
       dom_log := dom_log s @ gone @ rebuild_log ?ps ?keep\<rparr>"
    using fold_register_chart_shape [OF ap3, of ?ps] fr by simp
  have "initialize_all ext s = get_data ext (fold register_chart ?ps ?s3)"
    using assms fr s2 by (simp add: initialize_all_def get_selected_providers_def Let_def)
  then show ?thesis
    using s4 by auto
qed

lemma initialize_all_fields:
  assumes "statusCharting s = Stop" and "appliances s \<noteq> []"
  shows "statusCharting (initialize_all ext s) = Stop"
    and "appliances (initialize_all ext s) = appliances s"
    and "checked (initialize_all ext s) = checked s"
    and "colors (initialize_all ext s) = colors (fold assign_color (appliances s) s)"
    and "charts (initialize_all ext s) =
           fold (\<lambda>p. assign p (Some (fresh_chart (appliances s)
                   (colors (fold assign_color (appliances s) s))))) (checked s) []"
    and "containers (initialize_all ext s) = fold reappend (checked s)
              (filter (\<lambda>p. p \<notin> fst ` set (charts s) \<or> p \<in> set (checked s)) (containers s))"
    and "\<exists>gone. dom_log (initialize_all ext s) = dom_log s @ gone @ rebuild_log (checked s)
              (filter (\<lambda>p. p \<notin> fst ` set (charts s) \<or> p \<in> set (checked s)) (containers s))"
    and "length (requests (initialize_all ext s)) = Suc (length (requests s))"
proof -
  let ?sA = "fold assign_color (appliances s) s"
  have sA: "?sA = s\<lparr>colors := colors ?sA, random := random ?sA\<rparr>"
    using fold_assign_color_shape [of "appliances s" s] .
  have fr: "checked ?sA = checked s" "appliances ?sA = appliances s"
    "statusCharting ?sA = statusCharting s" "requests ?sA = requests s"
    by (subst sA, simp)+
  obtain gone where f: "initialize_all ext s =
     get_data ext
       (?sA\<lparr>charts := fold (\<lambda>p. assign p (Some (fresh_chart (appliances s) (colors ?sA)))) (checked s) [],
           containers := fold reappend (checked s)
              (filter (\<lambda>p. p \<notin> fst ` set (charts s) \<or> p \<in> set (checked s)) (containers s)),
           dom_log := dom_log s @ gone @ rebuild_log (checked s)
              (filter (\<lambda>p. p \<notin> fst ` set (charts s) \<or> p \<in> set (checked s)) (containers s))\<rparr>)"
    using initialize_all_active [OF assms, of ext] by blast
  show "statusCharting (initialize_all ext s) = Stop"
    using fr assms(1) by (simp add: f get_data_def Let_def)
  show "appliances (initialize_all ext s) = appliances s"
    using fr by (simp add: f get_data_def Let_def)
  show "checked (initialize_all ext s) = checked s"
    using fr by (simp add: f get_data_def Let_def)
  show "colors (initialize_all ext s) = colors ?sA"
    by (simp add: f get_data_def Let_def)
  show "charts (initialize_all ext s) =
           fold (\<lambda>p. assign p (Some (fresh_chart (appliances s) (colors ?sA)))) (checked s) []"
    by (simp add: f get_data_def Let_def)
  show "containers (initialize_all ext s) = fold reappend (checked s)
              (filter (\<lambda>p. p \<notin> fst ` set (charts s) \<or> p \<in> set (checked s)) (containers s))"
    by (simp add: f get_data_def Let_def)
  show "\<exists>gone. dom_log (initialize_all ext s) = dom_log s @ gone @ rebuild_log (checked s)
              (filter (\<lambda>p. p \<notin> fst ` set (charts s) \<or> p \<in> set (checked s)) (containers s))"
    by (rule exI [of _ gone]) (simp add: f get_data_def Let_def)
  show "length (requests (initialize_all ext s)) = Suc (length (requests s))"
    using fr by (simp add: f get_data_def Let_def)
qed

lemma series_of_fresh:
  assumes "map_of (charts s) p = Some (Some (fresh_chart apps cols))"
  shows "series_of s p = Some ([], replicate (length apps) [])"
  using assms by (simp add: series_of_def chart_of_def fresh_chart_def comp_def map_replicate_const)

text \<open>
  C2, as amended. A change of the checkboxes always calls \<^verbatim>\<open>initialize_all\<close>, which is
  gated: while the button displays "Start", or without appliances, only the selection
  changes. While it displays "Stop" and there are appliances, the containers of registered
  providers that are no longer selected are removed, charts are registered for exactly the
  selected providers, each with empty series, and one request is sent.
\<close>

theorem checkbox_change_is_gated:
  "(statusCharting s = Start \<or> appliances s = [] \<longrightarrow>
      checkbox_change ext sel s = s\<lparr>checked := sel\<rparr>) \<and>
   (statusCharting s = Stop \<and> appliances s \<noteq> [] \<longrightarrow>
      (\<forall>p. p \<in> fst ` set (charts s) \<and> p \<notin> set sel \<longrightarrow>
           p \<notin> set (containers (checkbox_change ext sel s))) \<and>
      fst ` set (charts (checkbox_change ext sel s)) = set sel \<and>
      (\<forall>p\<in>set sel. series_of (checkbox_change ext sel s) p =
           Some ([], replicate (length (appliances s)) [])) \<and>
      length (requests (checkbox_change ext sel s)) = Suc (length (requests s)))"
proof (intro conjI impI)
  assume "statusCharting s = Start \<or> appliances s = []"
  then show "checkbox_change ext sel s = s\<lparr>checked := sel\<rparr>"
    by (simp add: checkbox_change_def initialize_all_gated)
next
  assume a: "statusCharting s = Stop \<and> appliances s \<noteq> []"
  let ?s0 = "s\<lparr>checked := sel\<rparr>"
  have a0: "statusCharting ?s0 = Stop" "appliances ?s0 \<noteq> []"
    using a by simp_all
  note f = initialize_all_fields [OF a0, of ext]
  have cc: "checkbox_change ext sel s = initialize_all ext ?s0"
    by (simp add: checkbox_change_def)
  show "\<forall>p. p \<in> fst ` set (charts s) \<and> p \<notin> set sel \<longrightarrow>
           p \<notin> set (containers (checkbox_change ext sel s))"
    unfolding cc f(6) by (simp add: set_fold_reappend)
  show "fst ` set (charts (checkbox_change ext sel s)) = set sel"
    unfolding cc f(5) by (simp add: keys_fold_assign)
  show "\<forall>p\<in>set sel. series_of (checkbox_change ext sel s) p =
           Some ([], replicate (length (appliances s)) [])"
  proof
    fix p assume "p \<in> set sel"
    then have "map_of (charts (checkbox_change ext sel s)) p =
        Some (Some (fresh_chart (appliances s) (colors (fold assign_color (appliances s) ?s0))))"
      unfolding cc f(5) by (simp add: map_of_fold_assign)
    then show "series_of (checkbox_change ext sel s) p = Some ([], replicate (length (appliances s)) [])"
      by (rule series_of_fresh)
  qed
  show "length (requests (checkbox_change ext sel s)) = Suc (length (requests s))"
    unfolding cc f(8) by simp
qed

theorem checkbox_change_is_gated_witness:
  "statusCharting (run ext0 [Change [''cpu'', ''memory''], Success 0 tick_full, Click, Fire 0] page_monitoring) = Start \<and>
   checkbox_change ext0 [''cpu'']
      (run ext0 [Change [''cpu'', ''memory''], Success 0 tick_full, Click, Fire 0] page_monitoring) =
     (run ext0 [Change [''cpu'', ''memory''], Success 0 tick_full, Click, Fire 0] page_monitoring)
       \<lparr>checked := [''cpu'']\<rparr> \<and>
   statusCharting (run ext0 [Change [''cpu'', ''memory''], Success 0 tick_full] page_monitoring) = Stop \<and>
   appliances (run ext0 [Change [''cpu'', ''memory''], Success 0 tick_full] page_monitoring) \<noteq> [] \<and>
   ''memory'' \<in> fst ` set (charts (run ext0 [Change [''cpu'', ''memory''], Success 0 tick_full] page_monitoring)) \<and>
   ''memory'' \<notin> set (containers (checkbox_change ext0 [''cpu'']
      (run ext0 [Change [''cpu'', ''memory''], Success 0 tick_full] page_monitoring))) \<and>
   series_of (checkbox_change ext0 [''cpu'']
      (run ext0 [Change [''cpu'', ''memory''], Success 0 tick_full] page_monitoring)) ''cpu'' = Some ([], [[]])"
proof -
  define sI where "sI = run ext0 [Change [''cpu'', ''memory''], Success 0 tick_full, Click, Fire 0] page_monitoring"
  define sT where "sT = run ext0 [Change [''cpu'', ''memory''], Success 0 tick_full] page_monitoring"
  have i: "statusCharting sI = Start"
    unfolding sI_def by (simp add: monitoring_stopped)
  have t: "statusCharting sT = Stop" "appliances sT \<noteq> []" "length (appliances sT) = 1"
    "''memory'' \<in> fst ` set (charts sT)"
    unfolding sT_def by (simp_all add: monitoring_ticked)
  have "checkbox_change ext0 [''cpu''] sI = sI\<lparr>checked := [''cpu'']\<rparr>"
    using checkbox_change_is_gated [of sI ext0 "[''cpu'']"] i by simp
  moreover have "''memory'' \<notin> set (containers (checkbox_change ext0 [''cpu''] sT))"
    using checkbox_change_is_gated [of sT ext0 "[''cpu'']"] t by simp
  moreover have "series_of (checkbox_change ext0 [''cpu''] sT) ''cpu'' = Some ([], [[]])"
    using checkbox_change_is_gated [of sT ext0 "[''cpu'']"] t by simp
  ultimately show ?thesis
    using i t unfolding sI_def sT_def by simp
qed

text \<open>
  C2, as stated, fails: after monitoring \<^verbatim>\<open>cpu\<close> and \<^verbatim>\<open>memory\<close> and a click on "Stop",
  the button displays "Start"; unchecking \<^verbatim>\<open>memory\<close> then leaves its container on the page.
\<close>

theorem deselect_while_idle_keeps_widget:
  "statusCharting (run ext0 [Change [''cpu'', ''memory''], Success 0 tick_full, Click] page_monitoring) = Start \<and>
   ''memory'' \<in> fst ` set (charts (run ext0 [Change [''cpu'', ''memory''], Success 0 tick_full, Click] page_monitoring)) \<and>
   checked (run ext0 [Change [''cpu'', ''memory''], Success 0 tick_full, Click, Change [''cpu'']] page_monitoring) = [''cpu''] \<and>
   containers (run ext0 [Change [''cpu'', ''memory''], Success 0 tick_full, Click, Change [''cpu'']] page_monitoring)
     = [''cpu'', ''memory''] \<and>
   dom_log (run ext0 [Change [''cpu'', ''memory''], Success 0 tick_full, Click, Change [''cpu'']] page_monitoring)
     = [Created ''cpu'', Created ''memory'']"
proof -
  have "run ext0 [Change [''cpu'', ''memory''], Success 0 tick_full, Click] page_monitoring =
        step ext0 Click (run ext0 [Change [''cpu'', ''memory''], Success 0 tick_full] page_monitoring)"
    and "run ext0 [Change [''cpu'', ''memory''], Success 0 tick_full, Click, Change [''cpu'']] page_monitoring =
        step ext0 (Change [''cpu'']) (step ext0 Click
          (run ext0 [Change [''cpu'', ''memory''], Success 0 tick_full] page_monitoring))"
    by (simp_all add: run_def)
  then show ?thesis
    unfolding monitoring_ticked by (simp add: plugin_defs scenario_defs)
qed

text \<open>
  C4, as amended. While the button displays "Stop" and there are appliances, a second
  \<^verbatim>\<open>initialize_all\<close> right after the first leaves \<^verbatim>\<open>window.charts\<close> and the containers as
  the first left them, but it does so by destroying and creating again the widget of every
  selected provider, and it sends one more request.
\<close>

theorem sync_twice_rebuilds_widgets:
  assumes "statusCharting s = Stop" and "appliances s \<noteq> []"
  shows "charts (initialize_all ext (initialize_all ext s)) = charts (initialize_all ext s) \<and>
         containers (initialize_all ext (initialize_all ext s)) = containers (initialize_all ext s) \<and>
         take (length (dom_log (initialize_all ext s))) (dom_log (initialize_all ext (initialize_all ext s)))
           = dom_log (initialize_all ext s) \<and>
         (\<forall>p\<in>set (checked s).
            Destroyed p \<in> set (drop (length (dom_log (initialize_all ext s)))
                                  (dom_log (initialize_all ext (initialize_all ext s)))) \<and>
            Created p \<in> set (drop (length (dom_log (initialize_all ext s)))
                                (dom_log (initialize_all ext (initialize_all ext s))))) \<and>
         length (requests (initialize_all ext (initialize_all ext s))) =
           Suc (length (requests (initialize_all ext s)))"
proof -
  let ?s1 = "initialize_all ext s"
  let ?s2 = "initialize_all ext ?s1"
  let ?ps = "checked s"
  note f1 = initialize_all_fields [OF assms, of ext]
  have a1: "statusCharting ?s1 = Stop" "appliances ?s1 \<noteq> []"
    using f1(1,2) assms(2) by simp_all
  note f2 = initialize_all_fields [OF a1, of ext]
  have settled: "fold assign_color (appliances ?s1) ?s1 = ?s1"
  proof (rule fold_assign_color_done, rule ballI)
    fix a assume "a \<in> set (appliances ?s1)"
    then have "a \<in> set (appliances s)"
      using f1(2) by simp
    then show "colors ?s1 (hostname a) \<noteq> None"
      unfolding f1(4) by (rule fold_assign_color_sets)
  qed
  have keys: "fst ` set (charts ?s1) = set ?ps"
    unfolding f1(5) by (simp add: keys_fold_assign)
  have keep: "filter (\<lambda>p. p \<notin> fst ` set (charts ?s1) \<or> p \<in> set (checked ?s1)) (containers ?s1)
      = containers ?s1"
    using keys f1(3) by simp
  have c: "charts ?s2 = charts ?s1"
    unfolding f2(5) settled unfolding f1(2,3,4,5) by simp
  have k: "containers ?s2 = containers ?s1"
    unfolding f2(6) keep unfolding f1(3) unfolding f1(6) by (rule fold_reappend_twice)
  have there: "set ?ps \<subseteq> set (containers ?s1)"
    unfolding f1(6) by (simp add: set_fold_reappend)
  obtain gone where l: "dom_log ?s2 = dom_log ?s1 @ gone @ rebuild_log ?ps (containers ?s1)"
    using f2(7) keep f1(3) by auto
  have d: "drop (length (dom_log ?s1)) (dom_log ?s2) = gone @ rebuild_log ?ps (containers ?s1)"
    and t: "take (length (dom_log ?s1)) (dom_log ?s2) = dom_log ?s1"
    using l by simp_all
  have w: "\<forall>p\<in>set ?ps. Destroyed p \<in> set (drop (length (dom_log ?s1)) (dom_log ?s2)) \<and>
            Created p \<in> set (drop (length (dom_log ?s1)) (dom_log ?s2))"
    unfolding d using there rebuild_log_Created rebuild_log_Destroyed by auto
  show ?thesis
    using c k t w f2(8) by blast
qed

theorem sync_twice_rebuilds_widgets_witness:
  "statusCharting page_monitoring = Stop \<and> appliances page_monitoring \<noteq> [] \<and>
   checked page_monitoring = [''cpu'', ''memory''] \<and>
   charts (initialize_all ext0 (initialize_all ext0 page_monitoring)) =
     charts (initialize_all ext0 page_monitoring) \<and>
   Destroyed ''cpu'' \<in> set (drop (length (dom_log (initialize_all ext0 page_monitoring)))
        (dom_log (initialize_all ext0 (initialize_all ext0 page_monitoring)))) \<and>
   Created ''cpu'' \<in> set (drop (length (dom_log (initialize_all ext0 page_monitoring)))
        (dom_log (initialize_all ext0 (initialize_all ext0 page_monitoring))))"
proof -
  have a: "statusCharting page_monitoring = Stop" and b: "appliances page_monitoring \<noteq> []"
    and c: "checked page_monitoring = [''cpu'', ''memory'']"
    by (simp_all add: page_monitoring_def init_def toLowerCase_def)
  show ?thesis
    using sync_twice_rebuilds_widgets [OF a b, of ext0] a b c by simp
qed

text \<open>
  C4, as stated, fails: on the monitoring page the second \<^verbatim>\<open>initialize_all\<close> removes and
  creates again the containers of \<^verbatim>\<open>cpu\<close> and \<^verbatim>\<open>memory\<close>.
\<close>

theorem second_sync_destroys_and_creates:
  "statusCharting page_monitoring = Stop \<and>
   checked (initialize_all ext0 page_monitoring) = checked page_monitoring \<and>
   appliances (initialize_all ext0 page_monitoring) = appliances page_monitoring \<and>
   dom_log (initialize_all ext0 page_monitoring) = [Created ''cpu'', Created ''memory''] \<and>
   dom_log (initialize_all ext0 (initialize_all ext0 page_monitoring)) =
     [Created ''cpu'', Created ''memory'',
      Destroyed ''cpu'', Created ''cpu'', Destroyed ''memory'', Created ''memory'']"
  by (simp add: plugin_defs scenario_defs)

section \<open>Where the plugin departs from its description\<close>

text \<open>
  C1. A click on the button while it displays "Start", with one appliance and one provider
  checked: \<^verbatim>\<open>startCharting\<close> is published before the button's value changes, so
  \<^verbatim>\<open>initialize_all\<close> sees "Start" and returns at once. No chart is built and no request is
  sent; the button then displays "Stop".
\<close>

theorem click_start_does_not_poll:
  "statusCharting page_idle = Start \<and> appliances page_idle = [dp1] \<and> checked page_idle = [''cpu''] \<and>
   charts (step ext0 Click page_idle) = [] \<and> containers (step ext0 Click page_idle) = [] \<and>
   requests (step ext0 Click page_idle) = [] \<and> statusCharting (step ext0 Click page_idle) = Stop"
  by (simp add: page_idle_def init_def toLowerCase_def click_def initialize_all_def)

text \<open>
  C7. \<^verbatim>\<open>get_data\<close> has no check for an empty list of appliances; only \<^verbatim>\<open>initialize_all\<close>
  and \<^verbatim>\<open>initialize_chart\<close> have one. After a successful tick a timer is pending; the
  appliances are then all removed (\<^verbatim>\<open>initialize_all\<close> returns early and leaves the timer);
  when the timer fires, a request for no appliance is sent.
\<close>

theorem tick_with_no_device_sends_request:
  "appliances (run ext0 [Change [''cpu'', ''memory''], Success 0 tick_full, ModifyAppliances []] page_monitoring) = [] \<and>
   timers (run ext0 [Change [''cpu'', ''memory''], Success 0 tick_full, ModifyAppliances []] page_monitoring) = [0] \<and>
   requests (run ext0 [Change [''cpu'', ''memory''], Success 0 tick_full, ModifyAppliances []] page_monitoring) = [] \<and>
   requests (run ext0 [Change [''cpu'', ''memory''], Success 0 tick_full, ModifyAppliances [], Fire 0] page_monitoring) =
     [\<lparr>req_appliances = [], req_credentials = [], req_providers = [''cpu'', ''memory''],
       req_check_hostname = True\<rparr>]"
proof -
  have "run ext0 [Change [''cpu'', ''memory''], Success 0 tick_full, ModifyAppliances []] page_monitoring =
        step ext0 (ModifyAppliances [])
          (run ext0 [Change [''cpu'', ''memory''], Success 0 tick_full] page_monitoring)"
    and "run ext0 [Change [''cpu'', ''memory''], Success 0 tick_full, ModifyAppliances [], Fire 0] page_monitoring =
        step ext0 (Fire 0) (step ext0 (ModifyAppliances [])
          (run ext0 [Change [''cpu'', ''memory''], Success 0 tick_full] page_monitoring))"
    by (simp_all add: run_def)
  then show ?thesis
    unfolding monitoring_ticked by (simp add: plugin_defs scenario_defs)
qed


end
